theory Spec2Isabelle
  imports Complex_Main
begin

section \<open>JavaScript values\<close>

text \<open>
  The watering-system controller (\<^verbatim>\<open>watering-system/javascript/index.js\<close>) keeps three
  module-level variables (\<^verbatim>\<open>SCHEDULE\<close>, \<^verbatim>\<open>MOISTURE\<close>, \<^verbatim>\<open>intervals\<close>) and talks to a pump,
  a flow sensor, a moisture sensor, the console, a remote data store, an SMS service, the
  timers of the runtime and the recurring timers of the \<^verbatim>\<open>later\<close> library.  The schedule is
  whatever value the HTTP front end hands to \<^verbatim>\<open>updateSchedule\<close>, so it is modelled as a
  JavaScript value and not as a typed table.

  A JavaScript number is a finite value, an infinity or NaN.  The program compares numbers
  only with the constants \<^verbatim>\<open>1\<close> and \<^verbatim>\<open>0.5\<close>, which are exact, so a finite number is kept as
  the rational it denotes.
\<close>

datatype jsnum = Fin rat | PosInf | NegInf | NaN

text \<open>The operator \<^verbatim>\<open><\<close> on numbers: false as soon as one side is NaN.\<close>

fun js_lt :: "jsnum \<Rightarrow> jsnum \<Rightarrow> bool" where
  "js_lt NaN _ = False"
| "js_lt _ NaN = False"
| "js_lt (Fin x) (Fin y) = (x < y)"
| "js_lt (Fin x) PosInf = True"
| "js_lt (Fin x) NegInf = False"
| "js_lt PosInf _ = False"
| "js_lt NegInf NegInf = False"
| "js_lt NegInf _ = True"

text \<open>The operator \<^verbatim>\<open>>=\<close> on numbers: false on NaN, otherwise the negation of \<^verbatim>\<open><\<close>.\<close>

fun js_ge :: "jsnum \<Rightarrow> jsnum \<Rightarrow> bool" where
  "js_ge NaN _ = False"
| "js_ge _ NaN = False"
| "js_ge a b = (\<not> js_lt a b)"

text \<open>
  An object is the list of its own enumerable properties in the order \<^verbatim>\<open>Object.keys\<close>
  reports them; a well-formed object has pairwise distinct keys.
\<close>

datatype jsval =
    JUndefined
  | JNull
  | JBool bool
  | JNum jsnum
  | JStr string
  | JArr "jsval list"
  | JObj "(string \<times> jsval) list"

datatype js_error = TypeError

text \<open>Truthiness, as \<^verbatim>\<open>!x\<close>, \<^verbatim>\<open>if (x)\<close> and \<^verbatim>\<open>Array.prototype.filter\<close> read a value.\<close>

fun truthy :: "jsval \<Rightarrow> bool" where
  "truthy JUndefined = False"
| "truthy JNull = False"
| "truthy (JBool b) = b"
| "truthy (JNum n) = (n \<noteq> NaN \<and> n \<noteq> Fin 0)"
| "truthy (JStr s) = (s \<noteq> [])"
| "truthy (JArr xs) = True"
| "truthy (JObj ps) = True"

subsection \<open>Numbers as property keys and in messages\<close>

definition digit_char :: "nat \<Rightarrow> char" where
  "digit_char d = ''0123456789'' ! (d mod 10)"

fun string_of_nat :: "nat \<Rightarrow> string" where
  "string_of_nat n =
     (if n < 10 then [digit_char n] else string_of_nat (n div 10) @ [digit_char (n mod 10)])"

definition string_of_int :: "int \<Rightarrow> string" where
  "string_of_int i = (if i < 0 then CHR ''-'' # string_of_nat (nat (- i)) else string_of_nat (nat i))"

definition digit_val :: "char \<Rightarrow> nat option" where
  "digit_val c = map_of (zip ''0123456789'' [0..<10]) c"

definition nat_of_digits :: "string \<Rightarrow> nat" where
  "nat_of_digits cs = foldl (\<lambda>a c. 10 * a + (case digit_val c of Some d \<Rightarrow> d | None \<Rightarrow> 0)) 0 cs"

text \<open>
  \<^verbatim>\<open>function toInt(h) { return +h; }\<close> is applied to property keys.  On a key made of at
  most 15 decimal digits the result is the number the digits denote, exactly.  The numeric
  reading of any other key (signs, fractions, exponents, hexadecimal, blanks, NaN) is kept
  unevaluated, with the key.
\<close>

datatype hourval = Hour nat | ToNumber string

definition toInt :: "string \<Rightarrow> hourval" where
  "toInt h =
     (if h \<noteq> [] \<and> length h \<le> 15 \<and> list_all (\<lambda>c. digit_val c \<noteq> None) h
      then Hour (nat_of_digits h) else ToNumber h)"

subsection \<open>Reading properties\<close>

text \<open>
  The own enumerable properties of a value, as \<^verbatim>\<open>Object.keys\<close> sees them (ECMAScript
  2015): the indices of an array or of a string, nothing for a number or a boolean, a
  TypeError for \<^verbatim>\<open>null\<close> and \<^verbatim>\<open>undefined\<close>.
\<close>

fun own_props :: "jsval \<Rightarrow> js_error + (string \<times> jsval) list" where
  "own_props JUndefined = Inl TypeError"
| "own_props JNull = Inl TypeError"
| "own_props (JBool b) = Inr []"
| "own_props (JNum n) = Inr []"
| "own_props (JStr s) = Inr (zip (map string_of_nat [0..<length s]) (map (\<lambda>c. JStr [c]) s))"
| "own_props (JArr xs) = Inr (zip (map string_of_nat [0..<length xs]) xs)"
| "own_props (JObj ps) = Inr ps"

definition Object_keys :: "jsval \<Rightarrow> js_error + string list" where
  "Object_keys v = (case own_props v of Inl e \<Rightarrow> Inl e | Inr ps \<Rightarrow> Inr (map fst ps))"

text \<open>
  The member read \<^verbatim>\<open>v[k]\<close> or \<^verbatim>\<open>v.k\<close>.  The program reads only keys that
  \<^verbatim>\<open>Object.keys\<close> returned and the names \<^verbatim>\<open>on\<close> and \<^verbatim>\<open>off\<close>, which no built-in prototype
  defines, so a key that is not an own property reads as \<^verbatim>\<open>undefined\<close>.  Reading a member
  of \<^verbatim>\<open>null\<close> or \<^verbatim>\<open>undefined\<close> throws.
\<close>

definition get_member :: "jsval \<Rightarrow> string \<Rightarrow> js_error + jsval" where
  "get_member v k =
     (case own_props v of
        Inl e \<Rightarrow> Inl e
      | Inr ps \<Rightarrow> Inr (case map_of ps k of Some x \<Rightarrow> x | None \<Rightarrow> JUndefined))"

text \<open>\<^verbatim>\<open>xs.filter(f)\<close> where \<^verbatim>\<open>f\<close> may throw: the first exception ends the traversal.\<close>

fun filter_js :: "('a \<Rightarrow> js_error + jsval) \<Rightarrow> 'a list \<Rightarrow> js_error + 'a list" where
  "filter_js f [] = Inr []"
| "filter_js f (x # xs) =
     (case f x of
        Inl e \<Rightarrow> Inl e
      | Inr b \<Rightarrow>
          (case filter_js f xs of
             Inl e \<Rightarrow> Inl e
           | Inr ys \<Rightarrow> Inr (if truthy b then x # ys else ys)))"

section \<open>Program state and its surroundings\<close>

text \<open>
  \<^verbatim>\<open>config.json\<close>, parsed.  A field the file does not give reads as \<^verbatim>\<open>undefined\<close>.
\<close>

record config =
  SERVER :: jsval
  AUTH_TOKEN :: jsval
  TWILIO_ACCT_SID :: jsval
  TWILIO_AUTH_TOKEN :: jsval
  NUMBER_TO_SEND_TO :: jsval
  TWILIO_OUTGOING_NUMBER :: jsval

text \<open>
  One entry of \<^verbatim>\<open>MOISTURE\<close>.  The source stores \<^verbatim>\<open>new Date().toISOString()\<close>; the model
  keeps the instant (milliseconds) that string renders.
\<close>

record sample =
  m_value :: int
  m_time :: nat

text \<open>
  The functions handed to a timer: \<^verbatim>\<open>turnOn\<close>, \<^verbatim>\<open>turnOff\<close>, \<^verbatim>\<open>checkFlowOn\<close>,
  \<^verbatim>\<open>checkFlowOff\<close> and the two anonymous functions that read the flow rate.
\<close>

datatype callback =
    CbTurnOn
  | CbTurnOff
  | CbCheckFlowOn
  | CbCheckFlowOff
  | CbFlowOnRead
  | CbFlowOffRead

text \<open>
  What \<^verbatim>\<open>later.setInterval(f, {schedules: [{h: hs}]})\<close> returns: a recurring timer that
  remembers its function and its hours and can be cleared.  When the library fires it is
  the library's business and is not modelled.
\<close>

record later_interval =
  cb :: callback
  hours :: "hourval list"
  cleared :: bool

text \<open>Everything the program does to the outside, in the order it does it.\<close>

datatype event =
    ConsoleLog string
  | RemotePut jsval jsval string nat
  | PumpWrite nat
  | FlowClear
  | FlowStart
  | FlowRate jsnum
  | SmsSend jsval jsval string
  | SetTimeout callback nat
  | LaterSetInterval callback "hourval list"
  | IntervalClear nat

text \<open>
  \<open>RemotePut server token e t\<close> is the request
  \<^verbatim>\<open>request.put(server).set("X-Auth-Token", token).send({value: e + " " + ISO(t)})\<close>.
  \<open>later_timers\<close> holds every recurring timer ever created, a timer's handle being its
  position; \<open>intervals\<close> holds handles.  \<open>timeouts\<close> are the pending \<^verbatim>\<open>setTimeout\<close> calls
  with the instant each is due; \<open>now\<close> is the clock in milliseconds; \<open>trace\<close> is the log
  of effects, each with the instant it happened.
\<close>

record state =
  config :: config
  SCHEDULE :: jsval
  MOISTURE :: "sample list"
  intervals :: "nat list"
  later_timers :: "later_interval list"
  timeouts :: "(nat \<times> callback) list"
  now :: nat
  trace :: "(nat \<times> event) list"

definition emit :: "event \<Rightarrow> state \<Rightarrow> state" where
  "emit e s = s\<lparr>trace := trace s @ [(now s, e)]\<rparr>"

text \<open>\<^verbatim>\<open>setTimeout(f, delay)\<close>.\<close>

definition setTimeout :: "callback \<Rightarrow> nat \<Rightarrow> state \<Rightarrow> state" where
  "setTimeout f delay s =
     emit (SetTimeout f delay) (s\<lparr>timeouts := timeouts s @ [(now s + delay, f)]\<rparr>)"

text \<open>\<^verbatim>\<open>later.setInterval(f, {schedules: [{h: hs}]})\<close>: a new live timer and its handle.\<close>

definition later_setInterval :: "callback \<Rightarrow> hourval list \<Rightarrow> state \<Rightarrow> nat \<times> state" where
  "later_setInterval f hs s =
     (length (later_timers s),
      emit (LaterSetInterval f hs)
        (s\<lparr>later_timers := later_timers s @ [\<lparr>cb = f, hours = hs, cleared = False\<rparr>]\<rparr>))"

text \<open>\<^verbatim>\<open>interval.clear()\<close>.\<close>

definition interval_clear :: "nat \<Rightarrow> state \<Rightarrow> state" where
  "interval_clear h s =
     emit (IntervalClear h)
       (if h < length (later_timers s)
        then s\<lparr>later_timers := (later_timers s)[h := (later_timers s ! h)\<lparr>cleared := True\<rparr>]\<rparr>
        else s)"

text \<open>\<^verbatim>\<open>hs.forEach(function(interval) { interval.clear(); })\<close>.\<close>

definition clear_all :: "nat list \<Rightarrow> state \<Rightarrow> state" where
  "clear_all hs s = foldl (\<lambda>st h. interval_clear h st) s hs"

text \<open>The handles of the recurring timers that have not been cleared.\<close>

definition live :: "state \<Rightarrow> nat list" where
  "live s = filter (\<lambda>h. \<not> cleared (later_timers s ! h)) [0..<length (later_timers s)]"

text \<open>
  The state once the module is loaded: the loop of lines 51 to 53 has filled hours 0 to
  23 with \<^verbatim>\<open>{ on: false, off: false }\<close>.
\<close>

definition default_schedule :: jsval where
  "default_schedule =
     JObj (map (\<lambda>i. (string_of_nat i, JObj [(''on'', JBool False), (''off'', JBool False)]))
             [0..<24])"

definition init :: "config \<Rightarrow> state" where
  "init c =
     \<lparr>config = c, SCHEDULE = default_schedule, MOISTURE = [], intervals = [],
      later_timers = [], timeouts = [], now = 0, trace = []\<rparr>"

section \<open>The program\<close>

text \<open>
  \<^verbatim>\<open>log(event)\<close>: the console first, then the remote store unless \<^verbatim>\<open>config.SERVER\<close> or
  \<^verbatim>\<open>config.AUTH_TOKEN\<close> is falsy.
\<close>

definition log_event :: "string \<Rightarrow> state \<Rightarrow> state" where
  "log_event e s =
     (let s1 = emit (ConsoleLog e) s in
      if \<not> truthy (SERVER (config s1)) \<or> \<not> truthy (AUTH_TOKEN (config s1)) then s1
      else emit (RemotePut (SERVER (config s1)) (AUTH_TOKEN (config s1)) e (now s1)) s1)"

text \<open>\<^verbatim>\<open>isOn(h)\<close> and \<^verbatim>\<open>isOff(h)\<close>: \<^verbatim>\<open>SCHEDULE[h].on\<close> and \<^verbatim>\<open>SCHEDULE[h].off\<close>.\<close>

definition isOn :: "state \<Rightarrow> string \<Rightarrow> js_error + jsval" where
  "isOn s h = (case get_member (SCHEDULE s) h of Inl e \<Rightarrow> Inl e | Inr v \<Rightarrow> get_member v ''on'')"

definition isOff :: "state \<Rightarrow> string \<Rightarrow> js_error + jsval" where
  "isOff s h = (case get_member (SCHEDULE s) h of Inl e \<Rightarrow> Inl e | Inr v \<Rightarrow> get_member v ''off'')"

text \<open>
  \<^verbatim>\<open>onSchedule()\<close> and \<^verbatim>\<open>offSchedule()\<close>: the \<^verbatim>\<open>h\<close> list of the one schedule they build,
  \<^verbatim>\<open>Object.keys(SCHEDULE).filter(isOn).map(toInt)\<close>.
\<close>

definition onSchedule :: "state \<Rightarrow> js_error + hourval list" where
  "onSchedule s =
     (case Object_keys (SCHEDULE s) of
        Inl e \<Rightarrow> Inl e
      | Inr ks \<Rightarrow> (case filter_js (isOn s) ks of Inl e \<Rightarrow> Inl e | Inr hs \<Rightarrow> Inr (map toInt hs)))"

definition offSchedule :: "state \<Rightarrow> js_error + hourval list" where
  "offSchedule s =
     (case Object_keys (SCHEDULE s) of
        Inl e \<Rightarrow> Inl e
      | Inr ks \<Rightarrow> (case filter_js (isOff s) ks of Inl e \<Rightarrow> Inl e | Inr hs \<Rightarrow> Inr (map toInt hs)))"

text \<open>
  \<^verbatim>\<open>alert()\<close>: the console first, then an SMS unless \<^verbatim>\<open>config.TWILIO_ACCT_SID\<close> or
  \<^verbatim>\<open>config.TWILIO_AUTH_TOKEN\<close> is falsy.
\<close>

definition alert_line :: string where
  "alert_line = ''Watering system alert''"

definition alert :: "state \<Rightarrow> state" where
  "alert s =
     (let s1 = emit (ConsoleLog alert_line) s in
      if \<not> truthy (TWILIO_ACCT_SID (config s1)) \<or> \<not> truthy (TWILIO_AUTH_TOKEN (config s1)) then s1
      else emit (SmsSend (NUMBER_TO_SEND_TO (config s1)) (TWILIO_OUTGOING_NUMBER (config s1))
                   ''watering system alarm'') s1)"

text \<open>\<^verbatim>\<open>checkFlowOn()\<close> and \<^verbatim>\<open>checkFlowOff()\<close>: restart the counter, read it in 2000 ms.\<close>

definition checkFlowOn :: "state \<Rightarrow> state" where
  "checkFlowOn s = setTimeout CbFlowOnRead 2000 (emit FlowStart (emit FlowClear s))"

definition checkFlowOff :: "state \<Rightarrow> state" where
  "checkFlowOff s = setTimeout CbFlowOffRead 2000 (emit FlowStart (emit FlowClear s))"

text \<open>
  The two anonymous functions: \<^verbatim>\<open>if (flow.flowRate() < 1) { alert(); }\<close> and
  \<^verbatim>\<open>if (flow.flowRate() >= 0.5) { alert(); }\<close>.  The value the sensor returns is an
  input.
\<close>

definition flowOnRead :: "jsnum \<Rightarrow> state \<Rightarrow> state" where
  "flowOnRead rate s =
     (let s1 = emit (FlowRate rate) s in if js_lt rate (Fin 1) then alert s1 else s1)"

definition flowOffRead :: "jsnum \<Rightarrow> state \<Rightarrow> state" where
  "flowOffRead rate s =
     (let s1 = emit (FlowRate rate) s in if js_ge rate (Fin (1 / 2)) then alert s1 else s1)"

text \<open>\<^verbatim>\<open>turnOn()\<close> and \<^verbatim>\<open>turnOff()\<close>.\<close>

definition turnOn :: "state \<Rightarrow> state" where
  "turnOn s = setTimeout CbCheckFlowOn 10000 (emit (PumpWrite 1) (log_event ''on'' s))"

definition turnOff :: "state \<Rightarrow> state" where
  "turnOff s = setTimeout CbCheckFlowOff 10000 (emit (PumpWrite 0) (log_event ''off'' s))"

text \<open>
  \<^verbatim>\<open>updateSchedule(data)\<close>.  The assignment and the clearing come first; an exception
  thrown while the new timers are built leaves \<^verbatim>\<open>intervals\<close> as it was.
\<close>

definition updateSchedule :: "jsval \<Rightarrow> state \<Rightarrow> (js_error + unit) \<times> state" where
  "updateSchedule data s =
     (let s1 = s\<lparr>SCHEDULE := data\<rparr>;
          s2 = clear_all (intervals s1) s1
      in case onSchedule s2 of
           Inl e \<Rightarrow> (Inl e, s2)
         | Inr on_h \<Rightarrow>
             (let (h1, s3) = later_setInterval CbTurnOn on_h s2
              in case offSchedule s3 of
                   Inl e \<Rightarrow> (Inl e, s3)
                 | Inr off_h \<Rightarrow>
                     (let (h2, s4) = later_setInterval CbTurnOff off_h s3
                      in (Inr (), s4\<lparr>intervals := [h1, h2]\<rparr>))))"

text \<open>The handler of \<^verbatim>\<open>GET /schedule\<close>: \<^verbatim>\<open>res.json({ data: SCHEDULE })\<close>.\<close>

definition get_schedule :: "state \<Rightarrow> jsval" where
  "get_schedule s = JObj [(''data'', SCHEDULE s)]"

text \<open>
  One tick of the timer that \<^verbatim>\<open>monitor()\<close> starts; the sensor's reading is an input.
\<close>

definition monitor_tick :: "int \<Rightarrow> state \<Rightarrow> state" where
  "monitor_tick v s =
     (let s1 = s\<lparr>MOISTURE := MOISTURE s @ [\<lparr>m_value = v, m_time = now s\<rparr>]\<rparr>;
          s2 = log_event (''moisture ('' @ string_of_int v @ '')'') s1
      in if length (MOISTURE s2) > 20 then s2\<lparr>MOISTURE := tl (MOISTURE s2)\<rparr> else s2)"

text \<open>Ticks at the given instants with the given readings, oldest first.\<close>

fun monitor_run :: "(nat \<times> int) list \<Rightarrow> state \<Rightarrow> state" where
  "monitor_run [] s = s"
| "monitor_run ((t, v) # rest) s = monitor_run rest (monitor_tick v (s\<lparr>now := t\<rparr>))"

section \<open>The timers of the runtime\<close>

definition run_callback :: "callback \<Rightarrow> jsnum \<Rightarrow> state \<Rightarrow> state" where
  "run_callback f rate s =
     (case f of
        CbTurnOn \<Rightarrow> turnOn s
      | CbTurnOff \<Rightarrow> turnOff s
      | CbCheckFlowOn \<Rightarrow> checkFlowOn s
      | CbCheckFlowOff \<Rightarrow> checkFlowOff s
      | CbFlowOnRead \<Rightarrow> flowOnRead rate s
      | CbFlowOffRead \<Rightarrow> flowOffRead rate s)"

text \<open>The pending timeout that is due first, the older one among equals, and the others.\<close>

fun take_due :: "nat \<Rightarrow> (nat \<times> callback) list \<Rightarrow> ((nat \<times> callback) \<times> (nat \<times> callback) list) option" where
  "take_due d [] = None"
| "take_due d (x # xs) =
     (if fst x = d then Some (x, xs)
      else (case take_due d xs of None \<Rightarrow> None | Some (y, ys) \<Rightarrow> Some (y, x # ys)))"

definition first_due :: "(nat \<times> callback) list \<Rightarrow> ((nat \<times> callback) \<times> (nat \<times> callback) list) option" where
  "first_due ts = (if ts = [] then None else take_due (foldl min (fst (hd ts)) (map fst ts)) ts)"

text \<open>
  The event loop runs the next timeout, at the instant it is due (or now, when that
  instant has passed); \<open>rate\<close> is what the flow sensor would return then.
\<close>

definition fire_next :: "jsnum \<Rightarrow> state \<Rightarrow> state" where
  "fire_next rate s =
     (case first_due (timeouts s) of
        None \<Rightarrow> s
      | Some ((due, f), rest) \<Rightarrow> run_callback f rate (s\<lparr>timeouts := rest, now := max (now s) due\<rparr>))"

section \<open>Notions used to state the properties\<close>

text \<open>The effects that took the program from \<open>s\<close> to \<open>s'\<close>, without their instants.\<close>

definition events_since :: "state \<Rightarrow> state \<Rightarrow> event list" where
  "events_since s s' = map snd (drop (length (trace s)) (trace s'))"

text \<open>\<open>precedes a b es\<close>: both occur in \<open>es\<close>, and \<open>a\<close> first occurs before \<open>b\<close> does.\<close>

definition index_of :: "event \<Rightarrow> event list \<Rightarrow> nat" where
  "index_of a es = length (takeWhile (\<lambda>e. e \<noteq> a) es)"

definition precedes :: "event \<Rightarrow> event \<Rightarrow> event list \<Rightarrow> bool" where
  "precedes a b es = (a \<in> set es \<and> b \<in> set es \<and> index_of a es < index_of b es)"

text \<open>How many times \<^verbatim>\<open>alert()\<close> has run, and how many times the flow rate has been read.\<close>

definition alerts :: "state \<Rightarrow> nat" where
  "alerts s = length (filter (\<lambda>e. e = ConsoleLog alert_line) (map snd (trace s)))"

fun is_rate_read :: "event \<Rightarrow> bool" where
  "is_rate_read (FlowRate r) = True"
| "is_rate_read _ = False"

definition rate_reads :: "state \<Rightarrow> nat" where
  "rate_reads s = length (filter is_rate_read (map snd (trace s)))"

text \<open>The entry of \<^verbatim>\<open>MOISTURE\<close> that a tick at instant \<open>t\<close> with reading \<open>v\<close> appends.\<close>

definition mk_sample :: "nat \<times> int \<Rightarrow> sample" where
  "mk_sample p = \<lparr>m_value = snd p, m_time = fst p\<rparr>"

text \<open>
  A schedule as the data model describes it: exactly the keys \<^verbatim>\<open>0\<close> to \<^verbatim>\<open>23\<close>, each
  with boolean \<^verbatim>\<open>on\<close> and \<^verbatim>\<open>off\<close>.
\<close>

definition hour_flags :: "jsval \<Rightarrow> bool" where
  "hour_flags v =
     (case v of
        JObj fs \<Rightarrow>
          (case (map_of fs ''on'', map_of fs ''off'') of
             (Some (JBool a), Some (JBool b)) \<Rightarrow> True
           | _ \<Rightarrow> False)
      | _ \<Rightarrow> False)"

definition valid_schedule :: "jsval \<Rightarrow> bool" where
  "valid_schedule S =
     (case S of
        JObj ps \<Rightarrow> map fst ps = map string_of_nat [0..<24] \<and> list_all hour_flags (map snd ps)
      | _ \<Rightarrow> False)"

text \<open>
  The inputs on which \<^verbatim>\<open>updateSchedule\<close> throws nothing: values other than \<^verbatim>\<open>null\<close> and
  \<^verbatim>\<open>undefined\<close> whose every property holds a value other than \<^verbatim>\<open>null\<close> and
  \<^verbatim>\<open>undefined\<close>.
\<close>

definition entries_defined :: "jsval \<Rightarrow> bool" where
  "entries_defined d =
     (case own_props d of
        Inl e \<Rightarrow> False
      | Inr ps \<Rightarrow> list_all (\<lambda>k. map_of ps k \<notin> {Some JNull, Some JUndefined}) (map fst ps))"

text \<open>
  The states the running program can be in: the module has been loaded, and then schedules
  were submitted, the pump was switched by a recurring timer or by hand, the monitor
  ticked, timeouts fired and time passed, in any order.
\<close>

inductive reachable :: "state \<Rightarrow> bool" where
  r_init: "reachable (init c)"
| r_update: "reachable s \<Longrightarrow> reachable (snd (updateSchedule d s))"
| r_on: "reachable s \<Longrightarrow> reachable (turnOn s)"
| r_off: "reachable s \<Longrightarrow> reachable (turnOff s)"
| r_tick: "reachable s \<Longrightarrow> reachable (monitor_tick v s)"
| r_fire: "reachable s \<Longrightarrow> reachable (fire_next r s)"
| r_clock: "reachable s \<Longrightarrow> now s \<le> t \<Longrightarrow> reachable (s\<lparr>now := t\<rparr>)"

subsection \<open>Concrete inputs\<close>

definition no_credentials :: config where
  "no_credentials =
     \<lparr>SERVER = JUndefined, AUTH_TOKEN = JUndefined, TWILIO_ACCT_SID = JUndefined,
      TWILIO_AUTH_TOKEN = JUndefined, NUMBER_TO_SEND_TO = JUndefined,
      TWILIO_OUTGOING_NUMBER = JUndefined\<rparr>"

definition all_credentials :: config where
  "all_credentials =
     \<lparr>SERVER = JStr ''http://store.example/events'', AUTH_TOKEN = JStr ''s3cret'',
      TWILIO_ACCT_SID = JStr ''AC01'', TWILIO_AUTH_TOKEN = JStr ''t0ken'',
      NUMBER_TO_SEND_TO = JStr ''+15550100'', TWILIO_OUTGOING_NUMBER = JStr ''+15550199''\<rparr>"

text \<open>A configuration with an empty server address and a \<^verbatim>\<open>null\<close> Twilio token.\<close>

definition half_credentials :: config where
  "half_credentials =
     \<lparr>SERVER = JStr [], AUTH_TOKEN = JStr ''s3cret'',
      TWILIO_ACCT_SID = JStr ''AC01'', TWILIO_AUTH_TOKEN = JNull,
      NUMBER_TO_SEND_TO = JStr ''+15550100'', TWILIO_OUTGOING_NUMBER = JStr ''+15550199''\<rparr>"

text \<open>The default schedule without its entry for hour 17.\<close>

definition schedule_without_17 :: jsval where
  "schedule_without_17 =
     JObj (map (\<lambda>i. (string_of_nat i, JObj [(''on'', JBool False), (''off'', JBool False)]))
             ([0..<17] @ [18..<24]))"

text \<open>Every hour present, the pump on at 6 and off at 8.\<close>

definition schedule_6_8 :: jsval where
  "schedule_6_8 =
     JObj (map (\<lambda>i. (string_of_nat i, JObj [(''on'', JBool (i = 6)), (''off'', JBool (i = 8))]))
             [0..<24])"

text \<open>The body \<^verbatim>\<open>{"0": null}\<close>.\<close>

definition schedule_null_entry :: jsval where
  "schedule_null_entry = JObj [(''0'', JNull)]"

text \<open>The program after the default schedule has been submitted once.\<close>

definition installed :: state where
  "installed = snd (updateSchedule default_schedule (init no_credentials))"

section \<open>What each operation changes\<close>

lemma trace_emit: "trace (emit e s) = trace s @ [(now s, e)]"
  by (simp add: emit_def)

lemma now_emit: "now (emit e s) = now s"
  by (simp add: emit_def)

lemma config_emit: "config (emit e s) = config s"
  by (simp add: emit_def)

lemma timeouts_emit: "timeouts (emit e s) = timeouts s"
  by (simp add: emit_def)

lemma MOISTURE_emit: "MOISTURE (emit e s) = MOISTURE s"
  by (simp add: emit_def)

lemma events_since_append: "trace s' = trace s @ map (Pair t) es \<Longrightarrow> events_since s s' = es"
  by (simp add: events_since_def comp_def)

lemma trace_log_event:
  "trace (log_event e s) =
     trace s @ map (Pair (now s))
       (ConsoleLog e #
        (if truthy (SERVER (config s)) \<and> truthy (AUTH_TOKEN (config s))
         then [RemotePut (SERVER (config s)) (AUTH_TOKEN (config s)) e (now s)] else []))"
  by (simp add: log_event_def Let_def trace_emit now_emit config_emit)

lemma now_log_event: "now (log_event e s) = now s"
  by (simp add: log_event_def Let_def now_emit)

lemma timeouts_log_event: "timeouts (log_event e s) = timeouts s"
  by (simp add: log_event_def Let_def timeouts_emit)

lemma MOISTURE_log_event: "MOISTURE (log_event e s) = MOISTURE s"
  by (simp add: log_event_def Let_def MOISTURE_emit)

lemma trace_setTimeout: "trace (setTimeout f d s) = trace s @ [(now s, SetTimeout f d)]"
  by (simp add: setTimeout_def trace_emit)

lemma timeouts_setTimeout: "timeouts (setTimeout f d s) = timeouts s @ [(now s + d, f)]"
  by (simp add: setTimeout_def timeouts_emit)

lemma now_setTimeout: "now (setTimeout f d s) = now s"
  by (simp add: setTimeout_def now_emit)

lemma trace_turnOn:
  "trace (turnOn s) =
     trace s @ map (Pair (now s))
       (ConsoleLog ''on'' #
        (if truthy (SERVER (config s)) \<and> truthy (AUTH_TOKEN (config s))
         then [RemotePut (SERVER (config s)) (AUTH_TOKEN (config s)) ''on'' (now s)] else []) @
        [PumpWrite 1, SetTimeout CbCheckFlowOn 10000])"
  by (simp add: turnOn_def trace_setTimeout trace_emit trace_log_event now_emit now_log_event)

lemma trace_turnOff:
  "trace (turnOff s) =
     trace s @ map (Pair (now s))
       (ConsoleLog ''off'' #
        (if truthy (SERVER (config s)) \<and> truthy (AUTH_TOKEN (config s))
         then [RemotePut (SERVER (config s)) (AUTH_TOKEN (config s)) ''off'' (now s)] else []) @
        [PumpWrite 0, SetTimeout CbCheckFlowOff 10000])"
  by (simp add: turnOff_def trace_setTimeout trace_emit trace_log_event now_emit now_log_event)

lemma timeouts_turnOn: "timeouts (turnOn s) = timeouts s @ [(now s + 10000, CbCheckFlowOn)]"
  by (simp add: turnOn_def timeouts_setTimeout timeouts_emit timeouts_log_event now_emit
      now_log_event)

lemma timeouts_turnOff: "timeouts (turnOff s) = timeouts s @ [(now s + 10000, CbCheckFlowOff)]"
  by (simp add: turnOff_def timeouts_setTimeout timeouts_emit timeouts_log_event now_emit
      now_log_event)

lemma now_turnOn: "now (turnOn s) = now s"
  by (simp add: turnOn_def now_setTimeout now_emit now_log_event)

lemma now_turnOff: "now (turnOff s) = now s"
  by (simp add: turnOff_def now_setTimeout now_emit now_log_event)

lemma trace_checkFlowOn:
  "trace (checkFlowOn s) =
     trace s @ [(now s, FlowClear), (now s, FlowStart), (now s, SetTimeout CbFlowOnRead 2000)]"
  by (simp add: checkFlowOn_def trace_setTimeout trace_emit now_emit)

lemma trace_checkFlowOff:
  "trace (checkFlowOff s) =
     trace s @ [(now s, FlowClear), (now s, FlowStart), (now s, SetTimeout CbFlowOffRead 2000)]"
  by (simp add: checkFlowOff_def trace_setTimeout trace_emit now_emit)

lemma timeouts_checkFlowOn: "timeouts (checkFlowOn s) = timeouts s @ [(now s + 2000, CbFlowOnRead)]"
  by (simp add: checkFlowOn_def timeouts_setTimeout timeouts_emit now_emit)

lemma timeouts_checkFlowOff: "timeouts (checkFlowOff s) = timeouts s @ [(now s + 2000, CbFlowOffRead)]"
  by (simp add: checkFlowOff_def timeouts_setTimeout timeouts_emit now_emit)

lemma now_checkFlowOn: "now (checkFlowOn s) = now s"
  by (simp add: checkFlowOn_def now_setTimeout now_emit)

lemma now_checkFlowOff: "now (checkFlowOff s) = now s"
  by (simp add: checkFlowOff_def now_setTimeout now_emit)

lemma now_alert: "now (alert s) = now s"
  by (simp add: alert_def Let_def now_emit)

lemma timeouts_alert: "timeouts (alert s) = timeouts s"
  by (simp add: alert_def Let_def timeouts_emit)

lemma alerts_emit:
  "alerts (emit e s) = alerts s + (if e = ConsoleLog alert_line then 1 else 0)"
  by (simp add: alerts_def trace_emit)

lemma alerts_alert: "alerts (alert s) = Suc (alerts s)"
  by (simp add: alert_def Let_def alerts_emit)

lemma rate_reads_emit: "rate_reads (emit e s) = rate_reads s + (if is_rate_read e then 1 else 0)"
  by (simp add: rate_reads_def trace_emit)

lemma rate_reads_alert: "rate_reads (alert s) = rate_reads s"
  by (simp add: alert_def Let_def rate_reads_emit)

lemma alerts_flowOnRead:
  "alerts (flowOnRead r s) = alerts s + (if js_lt r (Fin 1) then 1 else 0)"
  by (simp add: flowOnRead_def Let_def alerts_alert alerts_emit)

lemma alerts_flowOffRead:
  "alerts (flowOffRead r s) = alerts s + (if js_ge r (Fin (1 / 2)) then 1 else 0)"
  by (simp add: flowOffRead_def Let_def alerts_alert alerts_emit)

lemma now_flowOnRead: "now (flowOnRead r s) = now s"
  by (simp add: flowOnRead_def Let_def now_emit now_alert)

lemma now_flowOffRead: "now (flowOffRead r s) = now s"
  by (simp add: flowOffRead_def Let_def now_emit now_alert)

lemma timeouts_flowOnRead: "timeouts (flowOnRead r s) = timeouts s"
  by (simp add: flowOnRead_def Let_def timeouts_emit timeouts_alert)

lemma timeouts_flowOffRead: "timeouts (flowOffRead r s) = timeouts s"
  by (simp add: flowOffRead_def Let_def timeouts_emit timeouts_alert)

lemma rate_reads_flowOnRead: "rate_reads (flowOnRead r s) = Suc (rate_reads s)"
  by (simp add: flowOnRead_def Let_def rate_reads_emit rate_reads_alert)

lemma rate_reads_flowOffRead: "rate_reads (flowOffRead r s) = Suc (rate_reads s)"
  by (simp add: flowOffRead_def Let_def rate_reads_emit rate_reads_alert)

lemma alerts_clock: "alerts (s\<lparr>timeouts := ts, now := t\<rparr>) = alerts s"
  by (simp add: alerts_def)

lemma rate_reads_clock: "rate_reads (s\<lparr>timeouts := ts, now := t\<rparr>) = rate_reads s"
  by (simp add: rate_reads_def)

section \<open>Actuation\<close>

text \<open>
  C2, as the specification states it: within one call of \<^verbatim>\<open>turnOn\<close> or \<^verbatim>\<open>turnOff\<close> the
  pump is written before the notification is emitted.  The program does the opposite: at
  the first \<^verbatim>\<open>turnOn\<close> after start-up, with the remote store configured, the console line
  (and the remote request) come first and the pump is written after them.
\<close>

theorem C2_counterexample:
  "\<not> precedes (PumpWrite 1) (ConsoleLog ''on'')
       (events_since (init all_credentials) (turnOn (init all_credentials))) \<and>
   precedes (ConsoleLog ''on'') (PumpWrite 1)
       (events_since (init all_credentials) (turnOn (init all_credentials))) \<and>
   precedes (RemotePut (JStr ''http://store.example/events'') (JStr ''s3cret'') ''on'' 0) (PumpWrite 1)
       (events_since (init all_credentials) (turnOn (init all_credentials)))"
  by (simp add: events_since_def trace_turnOn init_def all_credentials_def precedes_def
      index_of_def)

text \<open>
  C2, amended: within one call of \<^verbatim>\<open>turnOn\<close> (of \<^verbatim>\<open>turnOff\<close>) the notification comes
  first, that is the console line and then, when the remote store is configured, the
  request to it; then the pump is written; then the timeout that starts the flow check is
  set, 10000 ms ahead.  Nothing else happens in the call.
\<close>

theorem C2_actuation_order:
  "events_since s (turnOn s) =
     ConsoleLog ''on'' #
     (if truthy (SERVER (config s)) \<and> truthy (AUTH_TOKEN (config s))
      then [RemotePut (SERVER (config s)) (AUTH_TOKEN (config s)) ''on'' (now s)] else []) @
     [PumpWrite 1, SetTimeout CbCheckFlowOn 10000] \<and>
   events_since s (turnOff s) =
     ConsoleLog ''off'' #
     (if truthy (SERVER (config s)) \<and> truthy (AUTH_TOKEN (config s))
      then [RemotePut (SERVER (config s)) (AUTH_TOKEN (config s)) ''off'' (now s)] else []) @
     [PumpWrite 0, SetTimeout CbCheckFlowOff 10000] \<and>
   precedes (ConsoleLog ''on'') (PumpWrite 1) (events_since s (turnOn s)) \<and>
   precedes (PumpWrite 1) (SetTimeout CbCheckFlowOn 10000) (events_since s (turnOn s)) \<and>
   precedes (ConsoleLog ''off'') (PumpWrite 0) (events_since s (turnOff s)) \<and>
   precedes (PumpWrite 0) (SetTimeout CbCheckFlowOff 10000) (events_since s (turnOff s))"
proof -
  have on: "events_since s (turnOn s) =
     ConsoleLog ''on'' #
     (if truthy (SERVER (config s)) \<and> truthy (AUTH_TOKEN (config s))
      then [RemotePut (SERVER (config s)) (AUTH_TOKEN (config s)) ''on'' (now s)] else []) @
     [PumpWrite 1, SetTimeout CbCheckFlowOn 10000]"
    by (rule events_since_append [OF trace_turnOn])
  have off: "events_since s (turnOff s) =
     ConsoleLog ''off'' #
     (if truthy (SERVER (config s)) \<and> truthy (AUTH_TOKEN (config s))
      then [RemotePut (SERVER (config s)) (AUTH_TOKEN (config s)) ''off'' (now s)] else []) @
     [PumpWrite 0, SetTimeout CbCheckFlowOff 10000]"
    by (rule events_since_append [OF trace_turnOff])
  show ?thesis
    unfolding on off by (simp add: precedes_def index_of_def)
qed

section \<open>Flow verification\<close>

text \<open>
  C3: when the read that ends an ON window returns a finite rate \<open>q\<close>, \<^verbatim>\<open>alert()\<close> runs
  once if \<open>q < 1\<close> and not at all otherwise; when the read that ends an OFF window returns
  \<open>q\<close>, it runs once if \<open>q \<ge> 1/2\<close> and not at all otherwise.  On the values that are not
  finite the two comparisons of the language decide the same way: NaN is neither below 1
  nor at least 1/2, plus infinity is at least 1/2 and not below 1, minus infinity is below
  1 and not at least 1/2.
\<close>

theorem C3_flow_decision_rule:
  "alerts (run_callback CbFlowOnRead (Fin q) s) = alerts s + (if q < 1 then 1 else 0) \<and>
   alerts (run_callback CbFlowOffRead (Fin q) s) = alerts s + (if 1 / 2 \<le> q then 1 else 0) \<and>
   alerts (run_callback CbFlowOnRead NaN s) = alerts s \<and>
   alerts (run_callback CbFlowOffRead NaN s) = alerts s \<and>
   alerts (run_callback CbFlowOnRead PosInf s) = alerts s \<and>
   alerts (run_callback CbFlowOffRead PosInf s) = alerts s + 1 \<and>
   alerts (run_callback CbFlowOnRead NegInf s) = alerts s + 1 \<and>
   alerts (run_callback CbFlowOffRead NegInf s) = alerts s"
  by (simp add: run_callback_def alerts_flowOnRead alerts_flowOffRead not_less)

subsection \<open>The two stages of a window\<close>

lemma first_due_single: "first_due [(d, f)] = Some ((d, f), [])"
  by (simp add: first_due_def)

lemma fire_next_single:
  "timeouts s = [(d, f)] \<Longrightarrow>
   fire_next r s = run_callback f r (s\<lparr>timeouts := [], now := max (now s) d\<rparr>)"
  by (simp add: fire_next_def first_due_single)

lemma on_window:
  fixes s :: state and r1 r2 :: jsnum
  assumes "timeouts s = []"
  defines "s1 \<equiv> turnOn s"
  defines "s2 \<equiv> fire_next r1 s1"
  defines "s3 \<equiv> fire_next r2 s2"
  shows "timeouts s1 = [(now s + 10000, CbCheckFlowOn)]"
    and "now s2 = now s + 10000"
    and "drop (length (trace s1)) (trace s2) =
           [(now s + 10000, FlowClear), (now s + 10000, FlowStart),
            (now s + 10000, SetTimeout CbFlowOnRead 2000)]"
    and "timeouts s2 = [(now s + 12000, CbFlowOnRead)]"
    and "now s3 = now s + 12000"
    and "rate_reads s3 = rate_reads s2 + 1"
    and "alerts s3 = alerts s2 + (if js_lt r2 (Fin 1) then 1 else 0)"
    and "timeouts s3 = []"
proof -
  show t1: "timeouts s1 = [(now s + 10000, CbCheckFlowOn)]"
    using assms(1) by (simp add: s1_def timeouts_turnOn)
  have s2: "s2 = checkFlowOn (s1\<lparr>timeouts := [], now := now s + 10000\<rparr>)"
    unfolding s2_def using fire_next_single [OF t1, of r1]
    by (simp add: run_callback_def s1_def now_turnOn)
  show n2: "now s2 = now s + 10000" by (simp add: s2 now_checkFlowOn)
  show "drop (length (trace s1)) (trace s2) =
           [(now s + 10000, FlowClear), (now s + 10000, FlowStart),
            (now s + 10000, SetTimeout CbFlowOnRead 2000)]"
    by (simp add: s2 trace_checkFlowOn)
  show t2: "timeouts s2 = [(now s + 12000, CbFlowOnRead)]"
    by (simp add: s2 timeouts_checkFlowOn)
  have s3: "s3 = flowOnRead r2 (s2\<lparr>timeouts := [], now := now s + 12000\<rparr>)"
    unfolding s3_def using fire_next_single [OF t2, of r2]
    by (simp add: run_callback_def n2)
  show "now s3 = now s + 12000" by (simp add: s3 now_flowOnRead)
  show "rate_reads s3 = rate_reads s2 + 1"
    by (simp add: s3 rate_reads_flowOnRead rate_reads_clock)
  show "alerts s3 = alerts s2 + (if js_lt r2 (Fin 1) then 1 else 0)"
    by (simp add: s3 alerts_flowOnRead alerts_clock)
  show "timeouts s3 = []" by (simp add: s3 timeouts_flowOnRead)
qed

lemma off_window:
  fixes s :: state and r1 r2 :: jsnum
  assumes "timeouts s = []"
  defines "s1 \<equiv> turnOff s"
  defines "s2 \<equiv> fire_next r1 s1"
  defines "s3 \<equiv> fire_next r2 s2"
  shows "timeouts s1 = [(now s + 10000, CbCheckFlowOff)]"
    and "now s2 = now s + 10000"
    and "drop (length (trace s1)) (trace s2) =
           [(now s + 10000, FlowClear), (now s + 10000, FlowStart),
            (now s + 10000, SetTimeout CbFlowOffRead 2000)]"
    and "timeouts s2 = [(now s + 12000, CbFlowOffRead)]"
    and "now s3 = now s + 12000"
    and "rate_reads s3 = rate_reads s2 + 1"
    and "alerts s3 = alerts s2 + (if js_ge r2 (Fin (1 / 2)) then 1 else 0)"
    and "timeouts s3 = []"
proof -
  show t1: "timeouts s1 = [(now s + 10000, CbCheckFlowOff)]"
    using assms(1) by (simp add: s1_def timeouts_turnOff)
  have s2: "s2 = checkFlowOff (s1\<lparr>timeouts := [], now := now s + 10000\<rparr>)"
    unfolding s2_def using fire_next_single [OF t1, of r1]
    by (simp add: run_callback_def s1_def now_turnOff)
  show n2: "now s2 = now s + 10000" by (simp add: s2 now_checkFlowOff)
  show "drop (length (trace s1)) (trace s2) =
           [(now s + 10000, FlowClear), (now s + 10000, FlowStart),
            (now s + 10000, SetTimeout CbFlowOffRead 2000)]"
    by (simp add: s2 trace_checkFlowOff)
  show t2: "timeouts s2 = [(now s + 12000, CbFlowOffRead)]"
    by (simp add: s2 timeouts_checkFlowOff)
  have s3: "s3 = flowOffRead r2 (s2\<lparr>timeouts := [], now := now s + 12000\<rparr>)"
    unfolding s3_def using fire_next_single [OF t2, of r2]
    by (simp add: run_callback_def n2)
  show "now s3 = now s + 12000" by (simp add: s3 now_flowOffRead)
  show "rate_reads s3 = rate_reads s2 + 1"
    by (simp add: s3 rate_reads_flowOffRead rate_reads_clock)
  show "alerts s3 = alerts s2 + (if js_ge r2 (Fin (1 / 2)) then 1 else 0)"
    by (simp add: s3 alerts_flowOffRead alerts_clock)
  show "timeouts s3 = []" by (simp add: s3 timeouts_flowOffRead)
qed

lemma stage_one:
  "trace (run_callback CbCheckFlowOn r s) =
     trace s @ [(now s, FlowClear), (now s, FlowStart), (now s, SetTimeout CbFlowOnRead 2000)]"
  "timeouts (run_callback CbCheckFlowOn r s) = timeouts s @ [(now s + 2000, CbFlowOnRead)]"
  "trace (run_callback CbCheckFlowOff r s) =
     trace s @ [(now s, FlowClear), (now s, FlowStart), (now s, SetTimeout CbFlowOffRead 2000)]"
  "timeouts (run_callback CbCheckFlowOff r s) = timeouts s @ [(now s + 2000, CbFlowOffRead)]"
  by (simp_all add: run_callback_def trace_checkFlowOn trace_checkFlowOff timeouts_checkFlowOn
      timeouts_checkFlowOff)

lemma stage_two:
  "rate_reads (run_callback CbFlowOnRead r s) = rate_reads s + 1"
  "timeouts (run_callback CbFlowOnRead r s) = timeouts s"
  "now (run_callback CbFlowOnRead r s) = now s"
  "rate_reads (run_callback CbFlowOffRead r s) = rate_reads s + 1"
  "timeouts (run_callback CbFlowOffRead r s) = timeouts s"
  "now (run_callback CbFlowOffRead r s) = now s"
  by (simp_all add: run_callback_def rate_reads_flowOnRead rate_reads_flowOffRead
      timeouts_flowOnRead timeouts_flowOffRead now_flowOnRead now_flowOffRead)


text \<open>
  C8: every \<^verbatim>\<open>turnOn\<close> (\<^verbatim>\<open>turnOff\<close>) sets a timeout due 10000 ms after the command.
  When that timeout runs, at instant \<open>t\<close>, the flow counter is cleared and started and a
  second timeout is set, due at \<open>t + 2000\<close>.  When the second one runs, the flow rate is
  read once and the decision about the alert is made; no further timeout is set.  With no
  other timeout pending and each timeout run at the instant it is due, the command at
  instant \<open>t\<close> is followed by the reset at \<open>t + 10000\<close> and by the single read and
  decision at \<open>t + 12000\<close>.
\<close>

theorem C8_verification_timing:
  "timeouts (turnOn s) = timeouts s @ [(now s + 10000, CbCheckFlowOn)] \<and>
   timeouts (turnOff s) = timeouts s @ [(now s + 10000, CbCheckFlowOff)] \<and>
   trace (run_callback CbCheckFlowOn r s) =
     trace s @ [(now s, FlowClear), (now s, FlowStart), (now s, SetTimeout CbFlowOnRead 2000)] \<and>
   timeouts (run_callback CbCheckFlowOn r s) = timeouts s @ [(now s + 2000, CbFlowOnRead)] \<and>
   trace (run_callback CbCheckFlowOff r s) =
     trace s @ [(now s, FlowClear), (now s, FlowStart), (now s, SetTimeout CbFlowOffRead 2000)] \<and>
   timeouts (run_callback CbCheckFlowOff r s) = timeouts s @ [(now s + 2000, CbFlowOffRead)] \<and>
   rate_reads (run_callback CbFlowOnRead r s) = rate_reads s + 1 \<and>
   timeouts (run_callback CbFlowOnRead r s) = timeouts s \<and>
   rate_reads (run_callback CbFlowOffRead r s) = rate_reads s + 1 \<and>
   timeouts (run_callback CbFlowOffRead r s) = timeouts s \<and>
   (timeouts s = [] \<longrightarrow>
     (let s1 = turnOn s; s2 = fire_next ra s1; s3 = fire_next rb s2 in
       timeouts s1 = [(now s + 10000, CbCheckFlowOn)] \<and>
       now s2 = now s + 10000 \<and>
       drop (length (trace s1)) (trace s2) =
         [(now s + 10000, FlowClear), (now s + 10000, FlowStart),
          (now s + 10000, SetTimeout CbFlowOnRead 2000)] \<and>
       timeouts s2 = [(now s + 12000, CbFlowOnRead)] \<and>
       now s3 = now s + 12000 \<and>
       rate_reads s3 = rate_reads s2 + 1 \<and>
       alerts s3 = alerts s2 + (if js_lt rb (Fin 1) then 1 else 0) \<and>
       timeouts s3 = []) \<and>
     (let s1 = turnOff s; s2 = fire_next ra s1; s3 = fire_next rb s2 in
       timeouts s1 = [(now s + 10000, CbCheckFlowOff)] \<and>
       now s2 = now s + 10000 \<and>
       drop (length (trace s1)) (trace s2) =
         [(now s + 10000, FlowClear), (now s + 10000, FlowStart),
          (now s + 10000, SetTimeout CbFlowOffRead 2000)] \<and>
       timeouts s2 = [(now s + 12000, CbFlowOffRead)] \<and>
       now s3 = now s + 12000 \<and>
       rate_reads s3 = rate_reads s2 + 1 \<and>
       alerts s3 = alerts s2 + (if js_ge rb (Fin (1 / 2)) then 1 else 0) \<and>
       timeouts s3 = []))"
proof (cases "timeouts s = []")
  case True
  show ?thesis
    unfolding Let_def
    by (simp add: on_window [OF True] off_window [OF True] timeouts_turnOn timeouts_turnOff
        stage_one stage_two)
next
  case False
  then show ?thesis
    by (simp add: timeouts_turnOn timeouts_turnOff stage_one stage_two)
qed

theorem C8_witness:
  "timeouts (init no_credentials) = [] \<and>
   now (fire_next (Fin (2 / 5)) (fire_next NaN (turnOn (init no_credentials)))) = 12000 \<and>
   trace (fire_next (Fin (2 / 5)) (fire_next NaN (turnOn (init no_credentials)))) =
     [(0, ConsoleLog ''on''), (0, PumpWrite 1), (0, SetTimeout CbCheckFlowOn 10000),
      (10000, FlowClear), (10000, FlowStart), (10000, SetTimeout CbFlowOnRead 2000),
      (12000, FlowRate (Fin (2 / 5))), (12000, ConsoleLog ''Watering system alert'')]"
proof -
  have e: "timeouts (init no_credentials) = []" by (simp add: init_def)
  have n: "now (init no_credentials) = 0" by (simp add: init_def)
  have "now (fire_next (Fin (2 / 5)) (fire_next NaN (turnOn (init no_credentials)))) = 12000"
    using C8_verification_timing
      [where s = "init no_credentials" and ra = NaN and rb = "Fin (2 / 5)"] e
    by (simp add: Let_def n)
  moreover have "trace (fire_next (Fin (2 / 5)) (fire_next NaN (turnOn (init no_credentials)))) =
     [(0, ConsoleLog ''on''), (0, PumpWrite 1), (0, SetTimeout CbCheckFlowOn 10000),
      (10000, FlowClear), (10000, FlowStart), (10000, SetTimeout CbFlowOnRead 2000),
      (12000, FlowRate (Fin (2 / 5))), (12000, ConsoleLog ''Watering system alert'')]"
    by (simp add: init_def no_credentials_def turnOn_def fire_next_def first_due_def
        setTimeout_def emit_def log_event_def run_callback_def checkFlowOn_def flowOnRead_def
        alert_def alert_line_def Let_def)
  ultimately show ?thesis using e by simp
qed

section \<open>Moisture history\<close>

lemma MOISTURE_monitor_tick:
  "MOISTURE (monitor_tick v s) =
     (if length (MOISTURE s) \<ge> 20 then tl (MOISTURE s @ [mk_sample (now s, v)])
      else MOISTURE s @ [mk_sample (now s, v)])"
  by (simp add: monitor_tick_def Let_def MOISTURE_log_event mk_sample_def)

lemma MOISTURE_monitor_run:
  "length (MOISTURE s) \<le> 20 \<Longrightarrow>
   MOISTURE (monitor_run tvs s) =
     drop (length (MOISTURE s) + length tvs - 20) (MOISTURE s @ map mk_sample tvs)"
proof (induction tvs arbitrary: s)
  case Nil
  then show ?case by simp
next
  case (Cons p rest)
  obtain t v where p: "p = (t, v)" by (cases p)
  let ?s = "monitor_tick v (s\<lparr>now := t\<rparr>)"
  let ?m = "MOISTURE s"
  show ?case
  proof (cases "length ?m = 20")
    case True
    then have ne: "?m \<noteq> []" by auto
    have m': "MOISTURE ?s = tl ?m @ [mk_sample (t, v)]"
      using True ne by (simp add: MOISTURE_monitor_tick)
    have len: "length (MOISTURE ?s) = 20" using True ne by (simp add: m')
    have "MOISTURE (monitor_run (p # rest) s) = MOISTURE (monitor_run rest ?s)"
      by (simp add: p)
    also have "\<dots> = drop (length rest) (tl ?m @ mk_sample (t, v) # map mk_sample rest)"
      using Cons.IH [of ?s] len by (simp add: m')
    also have "\<dots> = drop (Suc (length rest)) (?m @ mk_sample (t, v) # map mk_sample rest)"
      using ne by (cases ?m) simp_all
    finally show ?thesis using True by (simp add: p)
  next
    case False
    with Cons.prems have lt: "length ?m < 20" by simp
    have m': "MOISTURE ?s = ?m @ [mk_sample (t, v)]"
      using lt by (simp add: MOISTURE_monitor_tick)
    have "MOISTURE (monitor_run (p # rest) s) = MOISTURE (monitor_run rest ?s)"
      by (simp add: p)
    also have "\<dots> = drop (Suc (length ?m) + length rest - 20)
                       ((?m @ [mk_sample (t, v)]) @ map mk_sample rest)"
      using Cons.IH [of ?s] lt by (simp add: m')
    finally show ?thesis by (simp add: p)
  qed
qed

text \<open>
  C4: after \<open>n\<close> ticks of the monitor since start-up, \<^verbatim>\<open>MOISTURE\<close> holds \<open>min n 20\<close>
  entries, and they are the last \<open>min n 20\<close> samples taken, oldest first.
\<close>

theorem C4_moisture_history_fifo:
  "MOISTURE (monitor_run tvs (init c)) = drop (length tvs - 20) (map mk_sample tvs) \<and>
   length (MOISTURE (monitor_run tvs (init c))) = min (length tvs) 20"
proof -
  have m: "MOISTURE (init c) = []" by (simp add: init_def)
  have eq: "MOISTURE (monitor_run tvs (init c)) = drop (length tvs - 20) (map mk_sample tvs)"
    using MOISTURE_monitor_run [of "init c" tvs] by (simp add: m)
  show ?thesis unfolding eq by auto
qed

section \<open>Notifications without credentials\<close>

text \<open>
  C10: when \<^verbatim>\<open>config.SERVER\<close> or \<^verbatim>\<open>config.AUTH_TOKEN\<close> is falsy, \<^verbatim>\<open>log(event)\<close> writes
  the event to the console and does nothing else; when \<^verbatim>\<open>config.TWILIO_ACCT_SID\<close> or
  \<^verbatim>\<open>config.TWILIO_AUTH_TOKEN\<close> is falsy, \<^verbatim>\<open>alert()\<close> writes its line to the console and
  does nothing else.  Both return normally.
\<close>

theorem C10_silent_without_credentials:
  "(\<not> truthy (SERVER (config s)) \<or> \<not> truthy (AUTH_TOKEN (config s)) \<longrightarrow>
      log_event e s = s\<lparr>trace := trace s @ [(now s, ConsoleLog e)]\<rparr>) \<and>
   (\<not> truthy (TWILIO_ACCT_SID (config s)) \<or> \<not> truthy (TWILIO_AUTH_TOKEN (config s)) \<longrightarrow>
      alert s = s\<lparr>trace := trace s @ [(now s, ConsoleLog alert_line)]\<rparr>)"
  by (simp add: log_event_def alert_def Let_def emit_def)

theorem C10_witness:
  "\<not> truthy (SERVER (config (init half_credentials))) \<and>
   \<not> truthy (TWILIO_AUTH_TOKEN (config (init half_credentials))) \<and>
   trace (log_event ''on'' (init half_credentials)) = [(0, ConsoleLog ''on'')] \<and>
   trace (alert (init half_credentials)) = [(0, ConsoleLog ''Watering system alert'')]"
  using C10_silent_without_credentials [of "init half_credentials" "''on''"]
  by (simp add: init_def half_credentials_def alert_line_def)

section \<open>Replacing the schedule\<close>

subsection \<open>Recurring timers\<close>


lemma live_cong: "later_timers s = later_timers s' \<Longrightarrow> live s = live s'"
  by (simp add: live_def)

lemma interval_clear_fields:
  "SCHEDULE (interval_clear h s) = SCHEDULE s"
  "intervals (interval_clear h s) = intervals s"
  "now (interval_clear h s) = now s"
  "length (later_timers (interval_clear h s)) = length (later_timers s)"
  "trace (interval_clear h s) = trace s @ [(now s, IntervalClear h)]"
  by (simp_all add: interval_clear_def emit_def)

lemma nth_interval_clear:
  "i < length (later_timers s) \<Longrightarrow>
   later_timers (interval_clear h s) ! i =
     (if i = h then (later_timers s ! i)\<lparr>cleared := True\<rparr> else later_timers s ! i)"
  by (simp add: interval_clear_def emit_def nth_list_update)

lemma live_interval_clear: "live (interval_clear h s) = filter (\<lambda>i. i \<noteq> h) (live s)"
proof -
  have "filter (\<lambda>i. \<not> cleared (later_timers (interval_clear h s) ! i)) [0..<length (later_timers s)]
      = filter (\<lambda>i. i \<noteq> h \<and> \<not> cleared (later_timers s ! i)) [0..<length (later_timers s)]"
    by (rule filter_cong) (auto simp: nth_interval_clear)
  then show ?thesis
    by (simp add: live_def interval_clear_fields conj_commute)
qed

lemma clear_all_fields:
  "SCHEDULE (clear_all hs s) = SCHEDULE s"
  "intervals (clear_all hs s) = intervals s"
  "now (clear_all hs s) = now s"
  "length (later_timers (clear_all hs s)) = length (later_timers s)"
  "trace (clear_all hs s) = trace s @ map (\<lambda>h. (now s, IntervalClear h)) hs"
  unfolding clear_all_def
  by (induction hs arbitrary: s) (simp_all add: interval_clear_fields)

lemma live_clear_all: "live (clear_all hs s) = filter (\<lambda>i. i \<notin> set hs) (live s)"
  unfolding clear_all_def
proof (induction hs arbitrary: s)
  case Nil
  show ?case by simp
next
  case (Cons h hs)
  have "filter (\<lambda>i. i \<notin> set hs) (filter (\<lambda>i. i \<noteq> h) (live s)) =
        filter (\<lambda>i. i \<notin> set (h # hs)) (live s)"
    by (auto intro: filter_cong)
  then show ?case by (simp add: Cons.IH live_interval_clear)
qed

lemma nth_clear_all:
  "i < length (later_timers s) \<Longrightarrow>
   later_timers (clear_all hs s) ! i =
     (if i \<in> set hs then (later_timers s ! i)\<lparr>cleared := True\<rparr> else later_timers s ! i)"
  unfolding clear_all_def
proof (induction hs arbitrary: s)
  case Nil
  show ?case by simp
next
  case (Cons h hs)
  then show ?case by (simp add: interval_clear_fields nth_interval_clear)
qed

lemma later_setInterval_fields:
  "fst (later_setInterval f hs s) = length (later_timers s)"
  "SCHEDULE (snd (later_setInterval f hs s)) = SCHEDULE s"
  "intervals (snd (later_setInterval f hs s)) = intervals s"
  "now (snd (later_setInterval f hs s)) = now s"
  "later_timers (snd (later_setInterval f hs s)) =
     later_timers s @ [\<lparr>cb = f, hours = hs, cleared = False\<rparr>]"
  "trace (snd (later_setInterval f hs s)) = trace s @ [(now s, LaterSetInterval f hs)]"
  by (simp_all add: later_setInterval_def emit_def)

lemma live_snoc:
  assumes "later_timers s' = later_timers s @ [t]"
  shows "live s' = live s @ (if cleared t then [] else [length (later_timers s)])"
proof -
  have "filter (\<lambda>h. \<not> cleared ((later_timers s @ [t]) ! h)) [0..<length (later_timers s)] =
        filter (\<lambda>h. \<not> cleared (later_timers s ! h)) [0..<length (later_timers s)]"
    by (rule filter_cong) (simp_all add: nth_append)
  then show ?thesis by (simp add: live_def assms)
qed

lemma live_later_setInterval:
  "live (snd (later_setInterval f hs s)) = live s @ [length (later_timers s)]"
  by (simp add: live_snoc [OF later_setInterval_fields(5)])

subsection \<open>Which inputs make the schedule unreadable\<close>

lemma isl_filter_js: "isl (filter_js f xs) = (\<exists>x \<in> set xs. isl (f x))"
  by (induction xs) (auto split: sum.splits)

lemma isl_get_member: "isl (get_member v k) = (v = JNull \<or> v = JUndefined)"
  by (cases v) (simp_all add: get_member_def)

lemma onSchedule_cong:
  assumes "SCHEDULE s = SCHEDULE s'"
  shows "onSchedule s = onSchedule s'"
proof -
  have h: "isOn s = isOn s'" using assms by (simp add: isOn_def fun_eq_iff)
  show ?thesis unfolding onSchedule_def h assms by (rule refl)
qed

lemma offSchedule_cong:
  assumes "SCHEDULE s = SCHEDULE s'"
  shows "offSchedule s = offSchedule s'"
proof -
  have h: "isOff s = isOff s'" using assms by (simp add: isOff_def fun_eq_iff)
  show ?thesis unfolding offSchedule_def h assms by (rule refl)
qed

lemma isl_isOn:
  assumes "own_props (SCHEDULE s) = Inr ps" and "k \<in> set (map fst ps)"
  shows "isl (isOn s k) = (map_of ps k \<in> {Some JNull, Some JUndefined})"
proof -
  from assms(2) obtain v where v: "map_of ps k = Some v"
    by (metis domD dom_map_of_conv_image_fst set_map)
  show ?thesis
    using assms(1) v isl_get_member [of v "''on''"]
    by (auto simp add: isOn_def get_member_def split: sum.splits)
qed

lemma isl_isOff:
  assumes "own_props (SCHEDULE s) = Inr ps" and "k \<in> set (map fst ps)"
  shows "isl (isOff s k) = (map_of ps k \<in> {Some JNull, Some JUndefined})"
proof -
  from assms(2) obtain v where v: "map_of ps k = Some v"
    by (metis domD dom_map_of_conv_image_fst set_map)
  show ?thesis
    using assms(1) v isl_get_member [of v "''off''"]
    by (auto simp add: isOff_def get_member_def split: sum.splits)
qed

lemma isl_onSchedule: "isl (onSchedule s) = (\<not> entries_defined (SCHEDULE s))"
proof (cases "own_props (SCHEDULE s)")
  case (Inl e)
  then show ?thesis by (simp add: onSchedule_def Object_keys_def entries_defined_def)
next
  case (Inr ps)
  have "isl (onSchedule s) = isl (filter_js (isOn s) (map fst ps))"
    by (simp add: onSchedule_def Object_keys_def Inr split: sum.splits)
  also have "\<dots> = (\<exists>k \<in> set (map fst ps). map_of ps k \<in> {Some JNull, Some JUndefined})"
    unfolding isl_filter_js using isl_isOn [OF Inr] by blast
  also have "\<dots> = (\<not> entries_defined (SCHEDULE s))"
    by (simp add: entries_defined_def Inr list_all_iff)
  finally show ?thesis .
qed

lemma isl_offSchedule: "isl (offSchedule s) = (\<not> entries_defined (SCHEDULE s))"
proof (cases "own_props (SCHEDULE s)")
  case (Inl e)
  then show ?thesis by (simp add: offSchedule_def Object_keys_def entries_defined_def)
next
  case (Inr ps)
  have "isl (offSchedule s) = isl (filter_js (isOff s) (map fst ps))"
    by (simp add: offSchedule_def Object_keys_def Inr split: sum.splits)
  also have "\<dots> = (\<exists>k \<in> set (map fst ps). map_of ps k \<in> {Some JNull, Some JUndefined})"
    unfolding isl_filter_js using isl_isOff [OF Inr] by blast
  also have "\<dots> = (\<not> entries_defined (SCHEDULE s))"
    by (simp add: entries_defined_def Inr list_all_iff)
  finally show ?thesis .
qed

subsection \<open>updateSchedule, unfolded\<close>

lemma updateSchedule_throws:
  assumes "\<not> entries_defined d"
  shows "fst (updateSchedule d s) = Inl TypeError"
    and "snd (updateSchedule d s) = clear_all (intervals s) (s\<lparr>SCHEDULE := d\<rparr>)"
proof -
  let ?s2 = "clear_all (intervals s) (s\<lparr>SCHEDULE := d\<rparr>)"
  have "isl (onSchedule ?s2)"
    using assms by (simp add: isl_onSchedule clear_all_fields)
  then obtain e where e: "onSchedule ?s2 = Inl e" by (cases "onSchedule ?s2") auto
  have "e = TypeError" by (cases e) simp
  with e show "fst (updateSchedule d s) = Inl TypeError"
    and "snd (updateSchedule d s) = ?s2"
    by (simp_all add: updateSchedule_def Let_def)
qed

lemma updateSchedule_returns:
  assumes "entries_defined d"
  shows "\<exists>on_h off_h.
           onSchedule (s\<lparr>SCHEDULE := d\<rparr>) = Inr on_h \<and>
           offSchedule (s\<lparr>SCHEDULE := d\<rparr>) = Inr off_h \<and>
           updateSchedule d s =
             (Inr (),
              (snd (later_setInterval CbTurnOff off_h
                 (snd (later_setInterval CbTurnOn on_h
                    (clear_all (intervals s) (s\<lparr>SCHEDULE := d\<rparr>))))))
              \<lparr>intervals := [length (later_timers s), Suc (length (later_timers s))]\<rparr>)"
proof -
  let ?s1 = "s\<lparr>SCHEDULE := d\<rparr>"
  let ?s2 = "clear_all (intervals s) ?s1"
  have "\<not> isl (onSchedule ?s1)" using assms by (simp add: isl_onSchedule)
  then obtain on_h where on1: "onSchedule ?s1 = Inr on_h" by (cases "onSchedule ?s1") auto
  have "\<not> isl (offSchedule ?s1)" using assms by (simp add: isl_offSchedule)
  then obtain off_h where off1: "offSchedule ?s1 = Inr off_h" by (cases "offSchedule ?s1") auto
  let ?s3 = "snd (later_setInterval CbTurnOn on_h ?s2)"
  have on2: "onSchedule ?s2 = Inr on_h"
    using on1 onSchedule_cong [of ?s2 ?s1] by (simp add: clear_all_fields)
  have off3: "offSchedule ?s3 = Inr off_h"
    using off1 offSchedule_cong [of ?s3 ?s1]
    by (simp add: clear_all_fields later_setInterval_fields)
  have i1: "fst (later_setInterval CbTurnOn on_h ?s2) = length (later_timers s)"
    by (simp add: clear_all_fields later_setInterval_fields)
  have i2: "fst (later_setInterval CbTurnOff off_h ?s3) = Suc (length (later_timers s))"
    by (simp add: clear_all_fields later_setInterval_fields)
  have "updateSchedule d s =
          (Inr (), (snd (later_setInterval CbTurnOff off_h ?s3))
             \<lparr>intervals := [length (later_timers s), Suc (length (later_timers s))]\<rparr>)"
    by (simp add: updateSchedule_def Let_def case_prod_beta on2 off3 i1 i2)
  with on1 off1 show ?thesis by blast
qed

subsection \<open>The state after updateSchedule\<close>

lemma SCHEDULE_updateSchedule: "SCHEDULE (snd (updateSchedule d s)) = d"
proof (cases "entries_defined d")
  case True
  from updateSchedule_returns [OF True, of s] show ?thesis
    by (auto simp add: later_setInterval_fields clear_all_fields)
next
  case False
  then show ?thesis by (simp add: updateSchedule_throws clear_all_fields)
qed

lemma fst_updateSchedule: "fst (updateSchedule d s) = (if entries_defined d then Inr () else Inl TypeError)"
  using updateSchedule_returns [of d s] updateSchedule_throws(1) [of d s] by auto

lemma later_timers_updateSchedule:
  assumes "entries_defined d"
  shows "\<exists>on_h off_h.
           onSchedule (s\<lparr>SCHEDULE := d\<rparr>) = Inr on_h \<and>
           offSchedule (s\<lparr>SCHEDULE := d\<rparr>) = Inr off_h \<and>
           later_timers (snd (updateSchedule d s)) =
             later_timers (clear_all (intervals s) (s\<lparr>SCHEDULE := d\<rparr>)) @
             [\<lparr>cb = CbTurnOn, hours = on_h, cleared = False\<rparr>,
              \<lparr>cb = CbTurnOff, hours = off_h, cleared = False\<rparr>]"
  using updateSchedule_returns [OF assms, of s]
  by (auto simp add: later_setInterval_fields)

lemma intervals_updateSchedule:
  "intervals (snd (updateSchedule d s)) =
     (if entries_defined d then [length (later_timers s), Suc (length (later_timers s))]
      else intervals s)"
proof (cases "entries_defined d")
  case True
  from updateSchedule_returns [OF True, of s] show ?thesis
    using True by auto
next
  case False
  then show ?thesis by (simp add: updateSchedule_throws clear_all_fields)
qed

lemma live_updateSchedule:
  "live (snd (updateSchedule d s)) =
     filter (\<lambda>i. i \<notin> set (intervals s)) (live s) @
     (if entries_defined d then [length (later_timers s), Suc (length (later_timers s))] else [])"
proof (cases "entries_defined d")
  case True
  from updateSchedule_returns [OF True, of s] obtain on_h off_h where
    u: "snd (updateSchedule d s) =
        (snd (later_setInterval CbTurnOff off_h
           (snd (later_setInterval CbTurnOn on_h
              (clear_all (intervals s) (s\<lparr>SCHEDULE := d\<rparr>))))))
        \<lparr>intervals := [length (later_timers s), Suc (length (later_timers s))]\<rparr>"
    by auto
  let ?s4 = "snd (later_setInterval CbTurnOff off_h
           (snd (later_setInterval CbTurnOn on_h
              (clear_all (intervals s) (s\<lparr>SCHEDULE := d\<rparr>)))))"
  have "live (snd (updateSchedule d s)) = live ?s4"
    unfolding u by (rule live_cong) simp
  also have "\<dots> = live (clear_all (intervals s) (s\<lparr>SCHEDULE := d\<rparr>)) @
                   [length (later_timers s), Suc (length (later_timers s))]"
    by (simp add: live_later_setInterval later_setInterval_fields clear_all_fields)
  also have "live (clear_all (intervals s) (s\<lparr>SCHEDULE := d\<rparr>)) =
             filter (\<lambda>i. i \<notin> set (intervals s)) (live s)"
    unfolding live_clear_all by (simp add: live_cong [of "s\<lparr>SCHEDULE := d\<rparr>" s])
  finally show ?thesis using True by simp
next
  case False
  have "live (clear_all (intervals s) (s\<lparr>SCHEDULE := d\<rparr>)) =
             filter (\<lambda>i. i \<notin> set (intervals s)) (live s)"
    unfolding live_clear_all by (simp add: live_cong [of "s\<lparr>SCHEDULE := d\<rparr>" s])
  then show ?thesis using False by (simp add: updateSchedule_throws)
qed

lemma trace_updateSchedule_prefix:
  "take (length (intervals s)) (events_since s (snd (updateSchedule d s))) =
     map IntervalClear (intervals s)"
proof (cases "entries_defined d")
  case True
  from updateSchedule_returns [OF True, of s] obtain on_h off_h where
    u: "snd (updateSchedule d s) =
        (snd (later_setInterval CbTurnOff off_h
           (snd (later_setInterval CbTurnOn on_h
              (clear_all (intervals s) (s\<lparr>SCHEDULE := d\<rparr>))))))
        \<lparr>intervals := [length (later_timers s), Suc (length (later_timers s))]\<rparr>"
    by auto
  show ?thesis
    unfolding u
    by (simp add: events_since_def later_setInterval_fields clear_all_fields comp_def)
next
  case False
  then show ?thesis
    by (simp add: updateSchedule_throws events_since_def clear_all_fields comp_def)
qed

lemma old_timers_updateSchedule:
  assumes "h < length (later_timers s)"
  shows "later_timers (snd (updateSchedule d s)) ! h =
           (if h \<in> set (intervals s) then (later_timers s ! h)\<lparr>cleared := True\<rparr>
            else later_timers s ! h)"
proof -
  let ?s2 = "clear_all (intervals s) (s\<lparr>SCHEDULE := d\<rparr>)"
  have n: "later_timers ?s2 ! h =
           (if h \<in> set (intervals s) then (later_timers s ! h)\<lparr>cleared := True\<rparr>
            else later_timers s ! h)"
    using nth_clear_all [of h "s\<lparr>SCHEDULE := d\<rparr>" "intervals s"] assms by simp
  have len: "h < length (later_timers ?s2)" using assms by (simp add: clear_all_fields)
  show ?thesis
  proof (cases "entries_defined d")
    case True
    from later_timers_updateSchedule [OF True, of s] obtain on_h off_h where
      "later_timers (snd (updateSchedule d s)) =
         later_timers ?s2 @
         [\<lparr>cb = CbTurnOn, hours = on_h, cleared = False\<rparr>,
          \<lparr>cb = CbTurnOff, hours = off_h, cleared = False\<rparr>]"
      by auto
    then show ?thesis using len n by (simp add: nth_append)
  next
    case False
    then show ?thesis using n by (simp add: updateSchedule_throws)
  qed
qed

subsection \<open>Every live timer is in intervals\<close>

lemma frame_turnOn:
  "later_timers (turnOn s) = later_timers s" "intervals (turnOn s) = intervals s"
  by (simp_all add: turnOn_def setTimeout_def emit_def log_event_def Let_def)

lemma frame_turnOff:
  "later_timers (turnOff s) = later_timers s" "intervals (turnOff s) = intervals s"
  by (simp_all add: turnOff_def setTimeout_def emit_def log_event_def Let_def)

lemma frame_monitor_tick:
  "later_timers (monitor_tick v s) = later_timers s" "intervals (monitor_tick v s) = intervals s"
  by (simp_all add: monitor_tick_def emit_def log_event_def Let_def)

lemma frame_run_callback:
  "later_timers (run_callback f r s) = later_timers s"
  "intervals (run_callback f r s) = intervals s"
  by (cases f; simp add: run_callback_def frame_turnOn frame_turnOff checkFlowOn_def
        checkFlowOff_def flowOnRead_def flowOffRead_def alert_def setTimeout_def emit_def Let_def)+

lemma frame_fire_next:
  "later_timers (fire_next r s) = later_timers s" "intervals (fire_next r s) = intervals s"
  by (simp_all add: fire_next_def frame_run_callback split: option.splits prod.splits)

lemma reachable_tracked: "reachable s \<Longrightarrow> set (live s) \<subseteq> set (intervals s)"
proof (induction rule: reachable.induct)
  case (r_init c)
  show ?case by (simp add: init_def live_def)
next
  case (r_update s d)
  then show ?case
    by (auto simp add: live_updateSchedule intervals_updateSchedule)
next
  case (r_on s)
  then show ?case by (simp add: frame_turnOn live_cong [of "turnOn s" s])
next
  case (r_off s)
  then show ?case by (simp add: frame_turnOff live_cong [of "turnOff s" s])
next
  case (r_tick s v)
  then show ?case by (simp add: frame_monitor_tick live_cong [of "monitor_tick v s" s])
next
  case (r_fire s r)
  then show ?case by (simp add: frame_fire_next live_cong [of "fire_next r s" s])
next
  case (r_clock s t)
  then show ?case by (simp add: live_cong [of "s\<lparr>now := t\<rparr>" s])
qed

lemma live_less: "h \<in> set (live s) \<Longrightarrow> h < length (later_timers s)"
  by (simp add: live_def)

lemma live_iff: "h \<in> set (live s) \<longleftrightarrow> h < length (later_timers s) \<and> \<not> cleared (later_timers s ! h)"
  by (auto simp add: live_def)

lemma reachable_live_updateSchedule:
  assumes "reachable s"
  shows "live (snd (updateSchedule d s)) =
     (if entries_defined d then [length (later_timers s), Suc (length (later_timers s))] else [])"
proof -
  have "filter (\<lambda>i. i \<notin> set (intervals s)) (live s) = []"
    using reachable_tracked [OF assms] by (auto simp add: filter_empty_conv)
  then show ?thesis by (simp add: live_updateSchedule)
qed

lemma valid_schedule_entries_defined:
  assumes "valid_schedule S"
  shows "entries_defined S"
proof -
  from assms obtain ps where S: "S = JObj ps" and hf: "list_all hour_flags (map snd ps)"
    by (cases S) (simp_all add: valid_schedule_def)
  have "map_of ps k \<notin> {Some JNull, Some JUndefined}" for k
  proof (cases "map_of ps k")
    case None
    then show ?thesis by simp
  next
    case (Some v)
    then have "v \<in> set (map snd ps)" by (force dest: map_of_SomeD)
    with hf have "hour_flags v" by (auto simp add: list_all_iff)
    then have "v \<noteq> JNull" "v \<noteq> JUndefined" by (auto simp add: hour_flags_def)
    with Some show ?thesis by simp
  qed
  then show ?thesis by (simp add: entries_defined_def S list_all_iff)
qed

subsection \<open>Reading the schedule back\<close>

text \<open>
  C6: for every schedule \<open>S\<close> that has exactly the hours 0 to 23, each with boolean
  \<^verbatim>\<open>on\<close> and \<^verbatim>\<open>off\<close>, \<^verbatim>\<open>updateSchedule(S)\<close> returns normally and \<^verbatim>\<open>GET /schedule\<close>
  then answers \<^verbatim>\<open>{ data: S }\<close>.
\<close>

theorem C6_schedule_round_trip:
  "valid_schedule S \<Longrightarrow>
   fst (updateSchedule S s) = Inr () \<and>
   get_schedule (snd (updateSchedule S s)) = JObj [(''data'', S)]"
  by (simp add: fst_updateSchedule valid_schedule_entries_defined get_schedule_def
      SCHEDULE_updateSchedule)

theorem C6_witness:
  "valid_schedule schedule_6_8 \<and>
   fst (updateSchedule schedule_6_8 installed) = Inr () \<and>
   get_schedule (snd (updateSchedule schedule_6_8 installed)) = JObj [(''data'', schedule_6_8)] \<and>
   get_schedule installed \<noteq> JObj [(''data'', schedule_6_8)]"
proof -
  have v: "valid_schedule schedule_6_8" by code_simp
  have d: "get_schedule installed \<noteq> JObj [(''data'', schedule_6_8)]" by code_simp
  from C6_schedule_round_trip [OF v, of installed] v d show ?thesis by simp
qed

subsection \<open>Inputs that are not schedules\<close>

text \<open>
  C1, as the specification states it: a schedule that misses an hour is rejected, the
  current schedule stays and no timer is torn down.  The program has no validation: with
  the default schedule installed, submitting the schedule without hour 17 returns
  normally, replaces the schedule, and clears both timers (two new ones are live).
\<close>

theorem C1_counterexample:
  "\<not> valid_schedule schedule_without_17 \<and>
   fst (updateSchedule schedule_without_17 installed) = Inr () \<and>
   SCHEDULE installed = default_schedule \<and>
   SCHEDULE (snd (updateSchedule schedule_without_17 installed)) = schedule_without_17 \<and>
   schedule_without_17 \<noteq> default_schedule \<and>
   live installed = [0, 1] \<and>
   live (snd (updateSchedule schedule_without_17 installed)) = [2, 3]"
  by code_simp

lemma old_live_not_live:
  assumes "reachable s" and "h \<in> set (live s)"
  shows "h \<notin> set (live (snd (updateSchedule d s)))"
  using live_less [OF assms(2)]
  by (auto simp add: reachable_live_updateSchedule [OF assms(1)])

text \<open>
  C1, amended: \<^verbatim>\<open>updateSchedule\<close> validates nothing.  For every input whose properties
  all hold values other than \<^verbatim>\<open>null\<close> and \<^verbatim>\<open>undefined\<close>, whether or not it misses hours
  or has hours out of range, the call returns normally, the schedule read back is the
  input, \<^verbatim>\<open>clear()\<close> is called on every entry of \<^verbatim>\<open>intervals\<close> before anything else,
  and no timer that was live before the call is live after it.
\<close>

theorem C1_no_validation:
  "reachable s \<Longrightarrow> entries_defined d \<Longrightarrow>
   (let s' = snd (updateSchedule d s) in
      fst (updateSchedule d s) = Inr () \<and>
      SCHEDULE s' = d \<and>
      get_schedule s' = JObj [(''data'', d)] \<and>
      take (length (intervals s)) (events_since s s') = map IntervalClear (intervals s) \<and>
      list_all (\<lambda>h. h \<notin> set (live s')) (live s))"
  by (simp add: Let_def fst_updateSchedule SCHEDULE_updateSchedule get_schedule_def
      trace_updateSchedule_prefix list_all_iff old_live_not_live)

theorem C1_witness:
  "reachable installed \<and>
   entries_defined schedule_without_17 \<and>
   \<not> valid_schedule schedule_without_17 \<and>
   fst (updateSchedule schedule_without_17 installed) = Inr () \<and>
   SCHEDULE (snd (updateSchedule schedule_without_17 installed)) = schedule_without_17 \<and>
   live installed = [0, 1] \<and>
   0 \<notin> set (live (snd (updateSchedule schedule_without_17 installed))) \<and>
   1 \<notin> set (live (snd (updateSchedule schedule_without_17 installed)))"
proof -
  have r: "reachable installed"
    unfolding installed_def by (intro r_update r_init)
  have e: "entries_defined schedule_without_17" by code_simp
  have v: "\<not> valid_schedule schedule_without_17" by code_simp
  have i: "live installed = [0, 1]" by code_simp
  from C1_no_validation [OF r e] r e v i show ?thesis
    by (simp add: Let_def)
qed

subsection \<open>Tearing the old timers down\<close>

text \<open>
  C5: in every state the program can reach and for every input, also one equal to the
  current schedule, \<^verbatim>\<open>updateSchedule\<close> first calls \<^verbatim>\<open>clear()\<close> on every entry of
  \<^verbatim>\<open>intervals\<close>; when it is over, every recurring timer that existed before the call is
  cleared, and the timers that are live were created by this call, with the hours
  \<^verbatim>\<open>onSchedule()\<close> and \<^verbatim>\<open>offSchedule()\<close> compute from the new schedule.
\<close>

theorem C5_replacement_clears_timers:
  "reachable s \<Longrightarrow>
   (let s' = snd (updateSchedule d s) in
      take (length (intervals s)) (events_since s s') = map IntervalClear (intervals s) \<and>
      list_all (\<lambda>h. cleared (later_timers s' ! h)) [0..<length (later_timers s)] \<and>
      list_all (\<lambda>h. h \<notin> set (live s')) (live s) \<and>
      SCHEDULE s' = d \<and>
      list_all (\<lambda>h. length (later_timers s) \<le> h \<and>
                     Inr (hours (later_timers s' ! h)) =
                       (if cb (later_timers s' ! h) = CbTurnOn then onSchedule s'
                        else offSchedule s'))
        (live s'))"
proof -
  assume r: "reachable s"
  let ?s' = "snd (updateSchedule d s)"
  let ?n = "length (later_timers s)"
  have old: "cleared (later_timers ?s' ! h)" if "h < ?n" for h
  proof (cases "cleared (later_timers s ! h)")
    case True
    then show ?thesis using that by (simp add: old_timers_updateSchedule)
  next
    case False
    with that have "h \<in> set (live s)" by (simp add: live_iff)
    with reachable_tracked [OF r] have "h \<in> set (intervals s)" by auto
    then show ?thesis using that by (simp add: old_timers_updateSchedule)
  qed
  have new: "?n \<le> h \<and> Inr (hours (later_timers ?s' ! h)) =
                 (if cb (later_timers ?s' ! h) = CbTurnOn then onSchedule ?s' else offSchedule ?s')"
    if "h \<in> set (live ?s')" for h
  proof (cases "entries_defined d")
    case False
    with that show ?thesis by (simp add: reachable_live_updateSchedule [OF r])
  next
    case True
    have len: "length (later_timers (clear_all (intervals s) (s\<lparr>SCHEDULE := d\<rparr>))) = ?n"
      by (simp add: clear_all_fields)
    from later_timers_updateSchedule [OF True, of s] obtain on_h off_h where
      on: "onSchedule (s\<lparr>SCHEDULE := d\<rparr>) = Inr on_h" and
      off: "offSchedule (s\<lparr>SCHEDULE := d\<rparr>) = Inr off_h" and
      lt: "later_timers ?s' =
         later_timers (clear_all (intervals s) (s\<lparr>SCHEDULE := d\<rparr>)) @
         [\<lparr>cb = CbTurnOn, hours = on_h, cleared = False\<rparr>,
          \<lparr>cb = CbTurnOff, hours = off_h, cleared = False\<rparr>]"
      by auto
    have on': "onSchedule ?s' = Inr on_h"
      using on onSchedule_cong [of ?s' "s\<lparr>SCHEDULE := d\<rparr>"] by (simp add: SCHEDULE_updateSchedule)
    have off': "offSchedule ?s' = Inr off_h"
      using off offSchedule_cong [of ?s' "s\<lparr>SCHEDULE := d\<rparr>"] by (simp add: SCHEDULE_updateSchedule)
    from that True have "h = ?n \<or> h = Suc ?n"
      by (simp add: reachable_live_updateSchedule [OF r])
    then show ?thesis
    proof
      assume "h = ?n"
      then show ?thesis by (simp add: lt on' nth_append len)
    next
      assume "h = Suc ?n"
      then show ?thesis by (simp add: lt off' nth_append len)
    qed
  qed
  show ?thesis
    unfolding Let_def
    using old new
    by (simp add: trace_updateSchedule_prefix SCHEDULE_updateSchedule list_all_iff
        old_live_not_live [OF r])
qed

theorem C5_witness:
  "reachable installed \<and>
   SCHEDULE installed = default_schedule \<and>
   live installed = [0, 1] \<and>
   cleared (later_timers (snd (updateSchedule default_schedule installed)) ! 0) \<and>
   cleared (later_timers (snd (updateSchedule default_schedule installed)) ! 1) \<and>
   live (snd (updateSchedule default_schedule installed)) = [2, 3]"
proof -
  have r: "reachable installed"
    unfolding installed_def by (intro r_update r_init)
  have n: "length (later_timers installed) = 2" by code_simp
  have u: "[0..<2] = [0, Suc 0]" by (simp add: upt_rec)
  have a: "SCHEDULE installed = default_schedule" by code_simp
  have b: "live installed = [0, 1]" by code_simp
  have c: "live (snd (updateSchedule default_schedule installed)) = [2, 3]" by code_simp
  from C5_replacement_clears_timers [OF r, of default_schedule] r a b c show ?thesis
    by (simp add: Let_def n u)
qed

subsection \<open>Two live timers\<close>

text \<open>
  C9, as stated: after every call, whatever the input, exactly two recurring timers are
  live.  With the default schedule installed, the body \<^verbatim>\<open>{"0": null}\<close> makes
  \<^verbatim>\<open>SCHEDULE[h].on\<close> throw a TypeError after the old timers were cleared and before new
  ones are created: no timer is live, and \<^verbatim>\<open>intervals\<close> still holds the two cleared ones.
\<close>

theorem C9_counterexample:
  "fst (updateSchedule schedule_null_entry installed) = Inl TypeError \<and>
   live installed = [0, 1] \<and>
   live (snd (updateSchedule schedule_null_entry installed)) = [] \<and>
   intervals (snd (updateSchedule schedule_null_entry installed)) = [0, 1]"
  by code_simp

text \<open>
  C9, amended: in every state the program can reach, after a call of \<^verbatim>\<open>updateSchedule\<close>
  with an input whose properties all hold values other than \<^verbatim>\<open>null\<close> and \<^verbatim>\<open>undefined\<close>,
  exactly two recurring timers are live, the two that \<^verbatim>\<open>intervals\<close> holds: the first
  calls \<^verbatim>\<open>turnOn\<close>, the second \<^verbatim>\<open>turnOff\<close>; both were created by this call, and every
  timer that was live before the call has been cleared.
\<close>

theorem C9_two_live_timers:
  "reachable s \<Longrightarrow> entries_defined d \<Longrightarrow>
   (let s' = snd (updateSchedule d s); n = length (later_timers s) in
      fst (updateSchedule d s) = Inr () \<and>
      live s' = [n, Suc n] \<and>
      intervals s' = [n, Suc n] \<and>
      length (later_timers s') = n + 2 \<and>
      cb (later_timers s' ! n) = CbTurnOn \<and>
      cb (later_timers s' ! Suc n) = CbTurnOff \<and>
      list_all (\<lambda>h. h < n \<and> cleared (later_timers s' ! h)) (live s))"
proof -
  assume r: "reachable s" and d: "entries_defined d"
  let ?s' = "snd (updateSchedule d s)"
  let ?n = "length (later_timers s)"
  have len: "length (later_timers (clear_all (intervals s) (s\<lparr>SCHEDULE := d\<rparr>))) = ?n"
    by (simp add: clear_all_fields)
  from later_timers_updateSchedule [OF d, of s] obtain on_h off_h where
    lt: "later_timers ?s' =
         later_timers (clear_all (intervals s) (s\<lparr>SCHEDULE := d\<rparr>)) @
         [\<lparr>cb = CbTurnOn, hours = on_h, cleared = False\<rparr>,
          \<lparr>cb = CbTurnOff, hours = off_h, cleared = False\<rparr>]"
    by auto
  have old: "h < ?n \<and> cleared (later_timers ?s' ! h)" if "h \<in> set (live s)" for h
  proof -
    from that have h: "h < ?n" by (rule live_less)
    from that reachable_tracked [OF r] have "h \<in> set (intervals s)" by auto
    with h show ?thesis by (simp add: old_timers_updateSchedule)
  qed
  have a: "fst (updateSchedule d s) = Inr ()" using d by (simp add: fst_updateSchedule)
  have b: "live ?s' = [?n, Suc ?n]" using d by (simp add: reachable_live_updateSchedule [OF r])
  have c: "intervals ?s' = [?n, Suc ?n]" using d by (simp add: intervals_updateSchedule)
  have l: "length (later_timers ?s') = ?n + 2" by (simp add: lt len)
  have e1: "cb (later_timers ?s' ! ?n) = CbTurnOn" by (simp add: lt len nth_append)
  have e2: "cb (later_timers ?s' ! Suc ?n) = CbTurnOff" by (simp add: lt len nth_append)
  have f: "list_all (\<lambda>h. h < ?n \<and> cleared (later_timers ?s' ! h)) (live s)"
    unfolding list_all_iff using old by blast
  show ?thesis
    unfolding Let_def using a b c l e1 e2 f by blast
qed

theorem C9_witness:
  "reachable installed \<and>
   entries_defined schedule_6_8 \<and>
   live installed = [0, 1] \<and>
   live (snd (updateSchedule schedule_6_8 installed)) = [2, 3] \<and>
   later_timers (snd (updateSchedule schedule_6_8 installed)) =
     [\<lparr>cb = CbTurnOn, hours = [], cleared = True\<rparr>,
      \<lparr>cb = CbTurnOff, hours = [], cleared = True\<rparr>,
      \<lparr>cb = CbTurnOn, hours = [Hour 6], cleared = False\<rparr>,
      \<lparr>cb = CbTurnOff, hours = [Hour 8], cleared = False\<rparr>]"
proof -
  have r: "reachable installed"
    unfolding installed_def by (intro r_update r_init)
  have e: "entries_defined schedule_6_8" by code_simp
  have n: "length (later_timers installed) = 2" by code_simp
  have b: "live installed = [0, 1]" by code_simp
  have c: "later_timers (snd (updateSchedule schedule_6_8 installed)) =
     [\<lparr>cb = CbTurnOn, hours = [], cleared = True\<rparr>,
      \<lparr>cb = CbTurnOff, hours = [], cleared = True\<rparr>,
      \<lparr>cb = CbTurnOn, hours = [Hour 6], cleared = False\<rparr>,
      \<lparr>cb = CbTurnOff, hours = [Hour 8], cleared = False\<rparr>]" by code_simp
  from C9_two_live_timers [OF r e] r e b c show ?thesis
    by (simp add: Let_def n)
qed

subsection \<open>A direction without hours\<close>

text \<open>
  C7, as the specification states it: a schedule with no hour switched on installs no
  on-timer.  The default schedule has no hour switched on and none switched off; after it
  is submitted at start-up both recurring timers exist and are live, each with an empty
  list of hours.
\<close>

theorem C7_counterexample:
  "onSchedule (init no_credentials\<lparr>SCHEDULE := default_schedule\<rparr>) = Inr [] \<and>
   offSchedule (init no_credentials\<lparr>SCHEDULE := default_schedule\<rparr>) = Inr [] \<and>
   installed = snd (updateSchedule default_schedule (init no_credentials)) \<and>
   live installed = [0, 1] \<and>
   later_timers installed =
     [\<lparr>cb = CbTurnOn, hours = [], cleared = False\<rparr>,
      \<lparr>cb = CbTurnOff, hours = [], cleared = False\<rparr>]"
proof -
  have "installed = snd (updateSchedule default_schedule (init no_credentials))"
    by (simp add: installed_def)
  moreover have "onSchedule (init no_credentials\<lparr>SCHEDULE := default_schedule\<rparr>) = Inr []"
    by code_simp
  moreover have "offSchedule (init no_credentials\<lparr>SCHEDULE := default_schedule\<rparr>) = Inr []"
    by code_simp
  moreover have "live installed = [0, 1]" by code_simp
  moreover have "later_timers installed =
     [\<lparr>cb = CbTurnOn, hours = [], cleared = False\<rparr>,
      \<lparr>cb = CbTurnOff, hours = [], cleared = False\<rparr>]" by code_simp
  ultimately show ?thesis by simp
qed

text \<open>A call of \<^verbatim>\<open>turnOn\<close> or \<^verbatim>\<open>turnOff\<close> by hand, in any state.\<close>

lemma pump_turnOn:
  "PumpWrite 1 \<in> set (events_since s (turnOn s))"
  "SetTimeout CbCheckFlowOn 10000 \<in> set (events_since s (turnOn s))"
  by (simp_all add: events_since_append [OF trace_turnOn])

lemma pump_turnOff:
  "PumpWrite 0 \<in> set (events_since s (turnOff s))"
  "SetTimeout CbCheckFlowOff 10000 \<in> set (events_since s (turnOff s))"
  by (simp_all add: events_since_append [OF trace_turnOff])

text \<open>
  C7, amended: when \<^verbatim>\<open>onSchedule()\<close> yields no hour for the submitted schedule,
  \<^verbatim>\<open>updateSchedule\<close> still creates the recurring timer for \<^verbatim>\<open>turnOn\<close>, with an empty list
  of hours, keeps it in \<^verbatim>\<open>intervals\<close> and leaves it live; whether the library ever fires
  such a timer is not the program's to decide.  A call of \<^verbatim>\<open>turnOn\<close> by hand in that
  state still writes 1 to the pump and sets the timeout of the flow check, 10000 ms ahead.
  The same holds for \<^verbatim>\<open>offSchedule()\<close>, the timer for \<^verbatim>\<open>turnOff\<close> and a call of
  \<^verbatim>\<open>turnOff\<close> by hand.
\<close>

theorem C7_empty_direction:
  "(onSchedule (s\<lparr>SCHEDULE := d\<rparr>) = Inr [] \<longrightarrow>
      (let s' = snd (updateSchedule d s); n = length (later_timers s) in
         fst (updateSchedule d s) = Inr () \<and>
         later_timers s' ! n = \<lparr>cb = CbTurnOn, hours = [], cleared = False\<rparr> \<and>
         n \<in> set (live s') \<and> n \<in> set (intervals s') \<and>
         PumpWrite 1 \<in> set (events_since s' (turnOn s')) \<and>
         timeouts (turnOn s') = timeouts s' @ [(now s' + 10000, CbCheckFlowOn)])) \<and>
   (offSchedule (s\<lparr>SCHEDULE := d\<rparr>) = Inr [] \<longrightarrow>
      (let s' = snd (updateSchedule d s); n = length (later_timers s) in
         fst (updateSchedule d s) = Inr () \<and>
         later_timers s' ! Suc n = \<lparr>cb = CbTurnOff, hours = [], cleared = False\<rparr> \<and>
         Suc n \<in> set (live s') \<and> Suc n \<in> set (intervals s') \<and>
         PumpWrite 0 \<in> set (events_since s' (turnOff s')) \<and>
         timeouts (turnOff s') = timeouts s' @ [(now s' + 10000, CbCheckFlowOff)]))"
proof -
  let ?s' = "snd (updateSchedule d s)"
  let ?n = "length (later_timers s)"
  have len: "length (later_timers (clear_all (intervals s) (s\<lparr>SCHEDULE := d\<rparr>))) = ?n"
    by (simp add: clear_all_fields)
  have main: "fst (updateSchedule d s) = Inr () \<and>
      later_timers ?s' ! ?n = \<lparr>cb = CbTurnOn, hours = on_h, cleared = False\<rparr> \<and>
      later_timers ?s' ! Suc ?n = \<lparr>cb = CbTurnOff, hours = off_h, cleared = False\<rparr> \<and>
      ?n \<in> set (live ?s') \<and> Suc ?n \<in> set (live ?s') \<and>
      ?n \<in> set (intervals ?s') \<and> Suc ?n \<in> set (intervals ?s')"
    if d: "entries_defined d"
      and on: "onSchedule (s\<lparr>SCHEDULE := d\<rparr>) = Inr on_h"
      and off: "offSchedule (s\<lparr>SCHEDULE := d\<rparr>) = Inr off_h" for on_h off_h
  proof -
    from later_timers_updateSchedule [OF d, of s] on off have
      lt: "later_timers ?s' =
         later_timers (clear_all (intervals s) (s\<lparr>SCHEDULE := d\<rparr>)) @
         [\<lparr>cb = CbTurnOn, hours = on_h, cleared = False\<rparr>,
          \<lparr>cb = CbTurnOff, hours = off_h, cleared = False\<rparr>]"
      by auto
    show ?thesis
      using d by (simp add: fst_updateSchedule live_updateSchedule intervals_updateSchedule
          lt nth_append len)
  qed
  have A: "entries_defined d \<and> (\<exists>off_h. offSchedule (s\<lparr>SCHEDULE := d\<rparr>) = Inr off_h)"
    if "onSchedule (s\<lparr>SCHEDULE := d\<rparr>) = Inr on_h" for on_h
  proof -
    from that have "\<not> isl (onSchedule (s\<lparr>SCHEDULE := d\<rparr>))" by simp
    then have d: "entries_defined d" by (simp add: isl_onSchedule)
    then have "\<not> isl (offSchedule (s\<lparr>SCHEDULE := d\<rparr>))" by (simp add: isl_offSchedule)
    then show ?thesis using d by (cases "offSchedule (s\<lparr>SCHEDULE := d\<rparr>)") auto
  qed
  have B: "entries_defined d \<and> (\<exists>on_h. onSchedule (s\<lparr>SCHEDULE := d\<rparr>) = Inr on_h)"
    if "offSchedule (s\<lparr>SCHEDULE := d\<rparr>) = Inr off_h" for off_h
  proof -
    from that have "\<not> isl (offSchedule (s\<lparr>SCHEDULE := d\<rparr>))" by simp
    then have d: "entries_defined d" by (simp add: isl_offSchedule)
    then have "\<not> isl (onSchedule (s\<lparr>SCHEDULE := d\<rparr>))" by (simp add: isl_onSchedule)
    then show ?thesis using d by (cases "onSchedule (s\<lparr>SCHEDULE := d\<rparr>)") auto
  qed
  have on_part:
    "fst (updateSchedule d s) = Inr () \<and>
     later_timers ?s' ! ?n = \<lparr>cb = CbTurnOn, hours = [], cleared = False\<rparr> \<and>
     ?n \<in> set (live ?s') \<and> ?n \<in> set (intervals ?s') \<and>
     PumpWrite 1 \<in> set (events_since ?s' (turnOn ?s')) \<and>
     timeouts (turnOn ?s') = timeouts ?s' @ [(now ?s' + 10000, CbCheckFlowOn)]"
    if on: "onSchedule (s\<lparr>SCHEDULE := d\<rparr>) = Inr []"
  proof -
    from A [OF on] obtain off_h where
      "entries_defined d" "offSchedule (s\<lparr>SCHEDULE := d\<rparr>) = Inr off_h" by blast
    from main [OF this(1) on this(2)] show ?thesis
      using pump_turnOn(1) [of ?s'] timeouts_turnOn [of ?s'] by blast
  qed
  have off_part:
    "fst (updateSchedule d s) = Inr () \<and>
     later_timers ?s' ! Suc ?n = \<lparr>cb = CbTurnOff, hours = [], cleared = False\<rparr> \<and>
     Suc ?n \<in> set (live ?s') \<and> Suc ?n \<in> set (intervals ?s') \<and>
     PumpWrite 0 \<in> set (events_since ?s' (turnOff ?s')) \<and>
     timeouts (turnOff ?s') = timeouts ?s' @ [(now ?s' + 10000, CbCheckFlowOff)]"
    if off: "offSchedule (s\<lparr>SCHEDULE := d\<rparr>) = Inr []"
  proof -
    from B [OF off] obtain on_h where
      "entries_defined d" "onSchedule (s\<lparr>SCHEDULE := d\<rparr>) = Inr on_h" by blast
    from main [OF this(1) this(2) off] show ?thesis
      using pump_turnOff(1) [of ?s'] timeouts_turnOff [of ?s'] by blast
  qed
  show ?thesis
    unfolding Let_def using on_part off_part by blast
qed

theorem C7_witness:
  "onSchedule (init no_credentials\<lparr>SCHEDULE := default_schedule\<rparr>) = Inr [] \<and>
   offSchedule (init no_credentials\<lparr>SCHEDULE := default_schedule\<rparr>) = Inr [] \<and>
   later_timers installed ! 0 = \<lparr>cb = CbTurnOn, hours = [], cleared = False\<rparr> \<and>
   later_timers installed ! 1 = \<lparr>cb = CbTurnOff, hours = [], cleared = False\<rparr> \<and>
   0 \<in> set (live installed) \<and> 1 \<in> set (live installed) \<and>
   PumpWrite 1 \<in> set (events_since installed (turnOn installed)) \<and>
   timeouts (turnOn installed) = [(10000, CbCheckFlowOn)]"
proof -
  have a: "onSchedule (init no_credentials\<lparr>SCHEDULE := default_schedule\<rparr>) = Inr []"
    by code_simp
  have b: "offSchedule (init no_credentials\<lparr>SCHEDULE := default_schedule\<rparr>) = Inr []"
    by code_simp
  have n: "length (later_timers (init no_credentials)) = 0" by (simp add: init_def)
  have t: "timeouts installed = []" by code_simp
  have c: "now installed = 0" by code_simp
  from C7_empty_direction [where s = "init no_credentials" and d = default_schedule] a b
  show ?thesis
    by (simp add: Let_def n installed_def [symmetric] t c)
qed

end
